theory Spec2Isabelle
  imports Main "HOL-Library.Sublist"
begin

section \<open>The notebook chainer\_sentiment\_analysis.ipynb as a program\<close>

text \<open>
  The repository is one Jupyter notebook. Its code cells run top to bottom in one Python
  kernel; every cell is a short sequence of statements that call the SageMaker SDK, the
  helper modules \<open>dataset\<close> and \<open>s3_util\<close>, NumPy, and the standard library. The
  model below keeps what the notebook itself owns: the order of the statements, the data
  passed from one call to the next through the kernel's global names, the
  \<open>try ... finally\<close> of the upload cell, and the propagation of exceptions. What a
  called function answers is not the notebook's: it is taken from a parameter, the world.
\<close>

subsection \<open>Python values and exceptions\<close>

datatype exn =
    TypeError | ValueError | IndexError | KeyError | NameError | AttributeError
  | FileExistsError | FileNotFoundError
  | Raised string  \<comment> \<open>any other exception, as the called library raised it\<close>

datatype val =
    VNone
  | VInt int
  | VStr string
  | VList "val list"
  | VTuple "val list"
  | VDict "(string \<times> val) list"
  | VArr "int list"       \<comment> \<open>a one-dimensional integer array\<close>
  | VFile "string list"   \<comment> \<open>an open text file: the lines not read yet\<close>
  | VObj string           \<comment> \<open>an opaque object of the SDK (session, estimator, predictor, image)\<close>

text \<open>Iteration (\<open>for x in v\<close>, unpacking): sequences give their elements, a dict its keys.\<close>

fun py_iter :: "val \<Rightarrow> exn + val list" where
  "py_iter (VList xs) = Inr xs"
| "py_iter (VTuple xs) = Inr xs"
| "py_iter (VStr s) = Inr (map (\<lambda>c. VStr [c]) s)"
| "py_iter (VDict kvs) = Inr (map (\<lambda>kv. VStr (fst kv)) kvs)"
| "py_iter (VArr xs) = Inr (map VInt xs)"
| "py_iter (VFile ls) = Inr (map VStr ls)"
| "py_iter _ = Inl TypeError"

text \<open>
  An element of a sequence by position. A position from \<open>-n\<close> to \<open>-1\<close>, for a
  sequence of length \<open>n\<close>, is taken from the end; any position outside \<open>-n\<close> to
  \<open>n - 1\<close> is an \<open>IndexError\<close>.
\<close>

definition seq_index :: "'a list \<Rightarrow> int \<Rightarrow> exn + 'a" where
  "seq_index xs i =
     (if 0 \<le> i \<and> i < int (length xs) then Inr (xs ! nat i)
      else if i < 0 \<and> - int (length xs) \<le> i then Inr (xs ! nat (int (length xs) + i))
      else Inl IndexError)"

text \<open>\<open>v[i]\<close> for an integer \<open>i\<close>, and \<open>v[key]\<close> for a string key.\<close>

fun py_index :: "val \<Rightarrow> int \<Rightarrow> exn + val" where
  "py_index (VList xs) i = seq_index xs i"
| "py_index (VTuple xs) i = seq_index xs i"
| "py_index (VStr s) i = map_sum id (\<lambda>c. VStr [c]) (seq_index s i)"
| "py_index (VArr xs) i = map_sum id VInt (seq_index xs i)"
| "py_index (VDict kvs) i = Inl KeyError"
| "py_index _ i = Inl TypeError"

fun py_getitem :: "val \<Rightarrow> string \<Rightarrow> exn + val" where
  "py_getitem (VDict kvs) key = (case map_of kvs key of None \<Rightarrow> Inl KeyError | Some v \<Rightarrow> Inr v)"
| "py_getitem (VArr xs) key = Inl IndexError"
| "py_getitem _ key = Inl TypeError"

text \<open>\<open>v[1:]\<close>.\<close>

fun py_tail :: "val \<Rightarrow> exn + val" where
  "py_tail (VList xs) = Inr (VList (drop 1 xs))"
| "py_tail (VTuple xs) = Inr (VTuple (drop 1 xs))"
| "py_tail (VStr s) = Inr (VStr (drop 1 s))"
| "py_tail (VArr xs) = Inr (VArr (drop 1 xs))"
| "py_tail _ = Inl TypeError"

text \<open>
  \<open>str.strip()\<close> removes leading and trailing whitespace. Strings are modelled as ASCII
  text; the ASCII characters Python counts as whitespace are 9 to 13, 28 to 31 and 32.
\<close>

definition is_space :: "char \<Rightarrow> bool" where
  "is_space c = (let n = (of_char c :: nat) in (9 \<le> n \<and> n \<le> 13) \<or> (28 \<le> n \<and> n \<le> 32))"

definition strip :: "string \<Rightarrow> string" where
  "strip s = rev (dropWhile is_space (rev (dropWhile is_space s)))"

fun py_strip :: "val \<Rightarrow> exn + val" where
  "py_strip (VStr s) = Inr (VStr (strip s))"
| "py_strip _ = Inl AttributeError"

text \<open>
  \<open>str.replace(old, new)\<close>: every non-overlapping occurrence, left to right. The counter
  is the number of characters of a matched occurrence still to skip.
\<close>

fun replace_from :: "string \<Rightarrow> string \<Rightarrow> nat \<Rightarrow> string \<Rightarrow> string" where
  "replace_from old new n [] = []"
| "replace_from old new (Suc n) (c # cs) = replace_from old new n cs"
| "replace_from old new 0 (c # cs) =
     (if prefix old (c # cs) then new @ replace_from old new (length old - 1) cs
      else c # replace_from old new 0 cs)"

definition str_replace :: "string \<Rightarrow> string \<Rightarrow> string \<Rightarrow> string" where
  "str_replace old new s =
     (if old = [] then new @ concat (map (\<lambda>c. c # new) s) else replace_from old new 0 s)"

fun py_replace :: "string \<Rightarrow> string \<Rightarrow> val \<Rightarrow> exn + val" where
  "py_replace old new (VStr s) = Inr (VStr (str_replace old new s))"
| "py_replace old new _ = Inl AttributeError"

text \<open>\<open>a, b, c = v\<close>: \<open>v\<close> must be iterable and have exactly three elements.\<close>

definition py_unpack3 :: "val \<Rightarrow> exn + (val \<times> val \<times> val)" where
  "py_unpack3 v =
     (case py_iter v of
        Inl e \<Rightarrow> Inl e
      | Inr [a, b, c] \<Rightarrow> Inr (a, b, c)
      | Inr _ \<Rightarrow> Inl ValueError)"

text \<open>A list comprehension \<open>[g(x) for x in xs]\<close>: the first exception ends it.\<close>

fun traverse :: "('a \<Rightarrow> exn + 'b) \<Rightarrow> 'a list \<Rightarrow> exn + 'b list" where
  "traverse g [] = Inr []"
| "traverse g (x # xs) =
     (case g x of
        Inl e \<Rightarrow> Inl e
      | Inr y \<Rightarrow> (case traverse g xs of Inl e \<Rightarrow> Inl e | Inr ys \<Rightarrow> Inr (y # ys)))"

definition comprehension :: "(val \<Rightarrow> exn + val) \<Rightarrow> val \<Rightarrow> exn + val" where
  "comprehension g v =
     (case py_iter v of
        Inl e \<Rightarrow> Inl e
      | Inr xs \<Rightarrow> map_sum id VList (traverse g xs))"

subsection \<open>Text files\<close>

text \<open>The lines of a text, each with its newline (the last line may lack one).\<close>

fun splitlines :: "string \<Rightarrow> string list" where
  "splitlines [] = []"
| "splitlines (c # cs) =
     (if c = CHR 0x0A then [c] # splitlines cs
      else (case splitlines cs of [] \<Rightarrow> [[c]] | l # ls \<Rightarrow> (c # l) # ls))"

text \<open>
  \<open>f.readlines(hint)\<close>: lines are read one by one, and no more lines are read once the
  total size of the lines read so far exceeds \<open>hint\<close>; a \<open>hint\<close> of 0 or less reads
  all lines. The result is the lines returned and the lines left in the file.
\<close>

fun readlines_from :: "nat \<Rightarrow> nat \<Rightarrow> string list \<Rightarrow> string list" where
  "readlines_from hint n [] = []"
| "readlines_from hint n (l # ls) =
     l # (if hint < n + length l then [] else readlines_from hint (n + length l) ls)"

definition readlines :: "int \<Rightarrow> string list \<Rightarrow> string list" where
  "readlines hint ls = (if hint \<le> 0 then ls else readlines_from (nat hint) 0 ls)"

subsection \<open>The local filesystem\<close>

text \<open>
  The filesystem is the list of the paths created. A path exists when it, or a path
  below it, is in the list.
\<close>

definition under :: "string \<Rightarrow> string \<Rightarrow> bool" where
  "under d p = (p = d \<or> prefix (d @ ''/'') p)"

definition path_exists :: "string list \<Rightarrow> string \<Rightarrow> bool" where
  "path_exists files p = list_ex (under p) files"

definition ancestors :: "string \<Rightarrow> string list" where
  "ancestors p = [take i p. i \<leftarrow> [1..<length p], p ! i = CHR ''/'']"

text \<open>\<open>os.path.join\<close>: a component that starts with a slash discards what came before.\<close>

fun os_path_join :: "string \<Rightarrow> string list \<Rightarrow> string" where
  "os_path_join a [] = a"
| "os_path_join a (b # bs) =
     os_path_join
       (if b \<noteq> [] \<and> hd b = CHR ''/'' then b
        else if a = [] \<or> last a = CHR ''/'' then a @ b
        else a @ ''/'' @ b) bs"

text \<open>\<open>np.savez\<close> and \<open>np.save\<close> append their extension to a name that lacks it.\<close>

definition with_ext :: "string \<Rightarrow> string \<Rightarrow> string" where
  "with_ext ext p = (if suffix ext p then p else p @ ext)"

subsection \<open>Calls, the world, and the kernel\<close>

text \<open>
  One constructor for every function the notebook calls, with the arguments the notebook
  passes. Keyword arguments that are literals in the source and play no part in the data
  flow (instance types, instance counts, hyperparameters, image sizes) are fixed by the
  constructor. \<open>Upload_data\<close> also records the files that are below the uploaded
  directory at the time of the call.
\<close>

datatype call =
    Session
  | Get_execution_role
  | Download_dataset string
  | Get_stsa_dataset val
  | Open val
  | Makedirs string
  | Savez string "(string \<times> val) list"
  | Save string val
  | Upload_data val string string "string list"
  | Rmtree string
  | Pygmentize string
  | Chainer string string val val
  | Fit val "(string \<times> val) list"
  | Latest_training_job_name val
  | Describe_training_job val val
  | Retrieve_output_from_s3 val string
  | Image string
  | Display val val
  | Deploy val
  | Predict val val
  | Delete_endpoint val

text \<open>
  The world answers the \<open>n\<close>-th call of a run with a value or an exception. Since the
  answer may depend on \<open>n\<close>, the same call can be answered differently when it is made
  again. \<open>file_text\<close> is the text of a file opened for reading.
\<close>

record world =
  sdk :: "nat \<Rightarrow> call \<Rightarrow> exn + val"
  file_text :: "nat \<Rightarrow> val \<Rightarrow> exn + string"

datatype var =
    V_sagemaker_session | V_role | V_file_paths | V_new_file_paths
  | V_train | V_test | V_vocab | V_f | V_i | V_line
  | V_train_data | V_train_labels | V_test_data | V_test_labels
  | V_train_input | V_test_input | V_vocab_input
  | V_chainer_estimator | V_chainer_training_job | V_desc | V_output_data
  | V_accuracy_graph | V_loss_graph | V_predictor
  | V_sentences | V_predictions | V_prediction | V_sentence | V_score

datatype printed =
    Print val                        \<comment> \<open>\<open>print(v)\<close>\<close>
  | Print_prediction val val val     \<comment> \<open>the three-field template of the prediction cells\<close>

text \<open>
  The kernel: the global names, the local filesystem, the calls made so far with their
  outcomes, and what was printed.
\<close>

record kernel =
  vars :: "var \<Rightarrow> val option"
  files :: "string list"
  trace :: "(call \<times> (exn + val)) list"
  out :: "printed list"

definition fresh :: "string list \<Rightarrow> kernel" where
  "fresh fs0 = \<lparr>vars = (\<lambda>x. None), files = fs0, trace = [], out = []\<rparr>"

text \<open>An expression yields a value or raises; a statement completes (\<open>None\<close>) or raises.\<close>

type_synonym 'a expr = "kernel \<Rightarrow> (exn + 'a) \<times> kernel"
type_synonym stmt = "kernel \<Rightarrow> exn option \<times> kernel"

definition log :: "call \<Rightarrow> exn + val \<Rightarrow> kernel \<Rightarrow> kernel" where
  "log c r k = k\<lparr>trace := trace k @ [(c, r)]\<rparr>"

definition invoke :: "world \<Rightarrow> call \<Rightarrow> val expr" where
  "invoke w c k = (let r = sdk w (length (trace k)) c in (r, log c r k))"

definition name :: "var \<Rightarrow> val expr" where
  "name x k = (case vars k x of None \<Rightarrow> (Inl NameError, k) | Some v \<Rightarrow> (Inr v, k))"

definition pure :: "(exn + 'a) \<Rightarrow> 'a expr" where
  "pure r k = (r, k)"

definition bind :: "'a expr \<Rightarrow> ('a \<Rightarrow> 'b expr) \<Rightarrow> 'b expr" where
  "bind m g k = (case m k of (Inl e, k') \<Rightarrow> (Inl e, k') | (Inr v, k') \<Rightarrow> g v k')"

definition assign :: "var \<Rightarrow> val expr \<Rightarrow> stmt" where
  "assign x m k =
     (case m k of
        (Inl e, k') \<Rightarrow> (Some e, k')
      | (Inr v, k') \<Rightarrow> (None, k'\<lparr>vars := (vars k')(x \<mapsto> v)\<rparr>))"

definition assign3 :: "var \<Rightarrow> var \<Rightarrow> var \<Rightarrow> val expr \<Rightarrow> stmt" where
  "assign3 x y z m k =
     (case m k of
        (Inl e, k') \<Rightarrow> (Some e, k')
      | (Inr v, k') \<Rightarrow>
          (case py_unpack3 v of
             Inl e \<Rightarrow> (Some e, k')
           | Inr (a, b, c) \<Rightarrow> (None, k'\<lparr>vars := (vars k')(x \<mapsto> a, y \<mapsto> b, z \<mapsto> c)\<rparr>)))"

definition expr_stmt :: "val expr \<Rightarrow> stmt" where
  "expr_stmt m k = (case m k of (Inl e, k') \<Rightarrow> (Some e, k') | (Inr v, k') \<Rightarrow> (None, k'))"

text \<open>A sequence of statements: the first exception ends it.\<close>

fun block :: "stmt list \<Rightarrow> stmt" where
  "block [] k = (None, k)"
| "block (c # cs) k = (case c k of (None, k') \<Rightarrow> block cs k' | (Some e, k') \<Rightarrow> (Some e, k'))"

text \<open>
  \<open>try: body finally: fin\<close>. The \<open>finally\<close> part always runs; an exception of the body is
  raised again after it, unless the \<open>finally\<close> part raises one itself.
\<close>

definition try_finally :: "stmt \<Rightarrow> stmt \<Rightarrow> stmt" where
  "try_finally body fin k =
     (case body k of
        (r, k') \<Rightarrow> (case fin k' of (None, k'') \<Rightarrow> (r, k'') | (Some e, k'') \<Rightarrow> (Some e, k'')))"

text \<open>\<open>for x in vs: body\<close>, over the elements already obtained from the iterable.\<close>

fun for_each :: "var \<Rightarrow> val list \<Rightarrow> stmt \<Rightarrow> stmt" where
  "for_each x [] body k = (None, k)"
| "for_each x (v # vs) body k =
     (case body (k\<lparr>vars := (vars k)(x \<mapsto> v)\<rparr>) of
        (None, k') \<Rightarrow> for_each x vs body k'
      | (Some e, k') \<Rightarrow> (Some e, k'))"

definition for_in :: "var \<Rightarrow> val expr \<Rightarrow> stmt \<Rightarrow> stmt" where
  "for_in x m body k =
     (case m k of
        (Inl e, k') \<Rightarrow> (Some e, k')
      | (Inr v, k') \<Rightarrow>
          (case py_iter v of Inl e \<Rightarrow> (Some e, k') | Inr vs \<Rightarrow> for_each x vs body k'))"

text \<open>
  \<open>with open(path, 'r') as x: body\<close>. Leaving the block closes the file and lets an
  exception of the body pass; the name \<open>x\<close> stays bound.
\<close>

definition open_read :: "world \<Rightarrow> val \<Rightarrow> val expr" where
  "open_read w p k =
     (let r = file_text w (length (trace k)) p
      in (map_sum id (\<lambda>t. VFile (splitlines t)) r, log (Open p) (map_sum id VStr r) k))"

definition with_open :: "world \<Rightarrow> val expr \<Rightarrow> var \<Rightarrow> stmt \<Rightarrow> stmt" where
  "with_open w path x body = block [assign x (bind path (open_read w)), body]"

text \<open>\<open>x.readline()\<close> and \<open>x.readlines(hint)\<close> on the file bound to the name \<open>x\<close>.\<close>

definition readline :: "var \<Rightarrow> val expr" where
  "readline x k =
     (case vars k x of
        None \<Rightarrow> (Inl NameError, k)
      | Some (VFile []) \<Rightarrow> (Inr (VStr []), k)
      | Some (VFile (l # ls)) \<Rightarrow> (Inr (VStr l), k\<lparr>vars := (vars k)(x \<mapsto> VFile ls)\<rparr>)
      | Some _ \<Rightarrow> (Inl AttributeError, k))"

definition readlines_of :: "var \<Rightarrow> int \<Rightarrow> val expr" where
  "readlines_of x hint k =
     (case vars k x of
        None \<Rightarrow> (Inl NameError, k)
      | Some (VFile ls) \<Rightarrow>
          (let got = readlines hint ls
           in (Inr (VList (map VStr got)), k\<lparr>vars := (vars k)(x \<mapsto> VFile (drop (length got) ls))\<rparr>))
      | Some _ \<Rightarrow> (Inl AttributeError, k))"

definition print_name :: "var \<Rightarrow> stmt" where
  "print_name x k =
     (case vars k x of
        None \<Rightarrow> (Some NameError, k)
      | Some v \<Rightarrow> (None, k\<lparr>out := out k @ [Print v]\<rparr>))"

text \<open>
  \<open>os.makedirs(p)\<close> raises when \<open>p\<close> exists and creates \<open>p\<close> with its missing parents
  otherwise; \<open>shutil.rmtree(p)\<close> raises when \<open>p\<close> does not exist and removes \<open>p\<close> with
  everything below it otherwise. Both depend on the filesystem only.
\<close>

definition makedirs :: "string \<Rightarrow> stmt" where
  "makedirs p k =
     (if path_exists (files k) p
      then (Some FileExistsError, log (Makedirs p) (Inl FileExistsError) k)
      else (None, log (Makedirs p) (Inr VNone)
                    (k\<lparr>files := files k @ [a \<leftarrow> ancestors p. \<not> path_exists (files k) a] @ [p]\<rparr>)))"

definition rmtree :: "string \<Rightarrow> stmt" where
  "rmtree p k =
     (if path_exists (files k) p
      then (None, log (Rmtree p) (Inr VNone) (k\<lparr>files := filter (\<lambda>q. \<not> under p q) (files k)\<rparr>))
      else (Some FileNotFoundError, log (Rmtree p) (Inl FileNotFoundError) k))"

text \<open>
  \<open>np.savez(p, data=a, labels=b)\<close> and \<open>np.save(p, a)\<close>: the world decides whether the
  write succeeds; when it does, the file exists afterwards.
\<close>

definition write_file :: "world \<Rightarrow> call \<Rightarrow> string \<Rightarrow> stmt" where
  "write_file w c p k =
     (case invoke w c k of
        (Inl e, k') \<Rightarrow> (Some e, k')
      | (Inr v, k') \<Rightarrow> (None, k'\<lparr>files := files k' @ [p]\<rparr>))"

definition savez :: "world \<Rightarrow> string \<Rightarrow> string \<Rightarrow> var \<Rightarrow> string \<Rightarrow> var \<Rightarrow> stmt" where
  "savez w p key1 x1 key2 x2 k =
     (case name x1 k of
        (Inl e, k') \<Rightarrow> (Some e, k')
      | (Inr a, k') \<Rightarrow>
          (case name x2 k' of
             (Inl e, k'') \<Rightarrow> (Some e, k'')
           | (Inr b, k'') \<Rightarrow>
               write_file w (Savez p [(key1, a), (key2, b)]) (with_ext ''.npz'' p) k''))"

definition save :: "world \<Rightarrow> string \<Rightarrow> var \<Rightarrow> stmt" where
  "save w p x k =
     (case name x k of
        (Inl e, k') \<Rightarrow> (Some e, k')
      | (Inr a, k') \<Rightarrow> write_file w (Save p a) (with_ext ''.npy'' p) k')"

text \<open>\<open>session.upload_data(path=p, key_prefix=key_prefix)\<close>.\<close>

definition upload_data :: "world \<Rightarrow> var \<Rightarrow> string \<Rightarrow> string \<Rightarrow> val expr" where
  "upload_data w session p key_prefix =
     bind (name session)
       (\<lambda>s k. invoke w (Upload_data s p key_prefix (filter (\<lambda>q. under p q \<and> q \<noteq> p) (files k))) k)"

text \<open>
  A shell escape (\<open>!command\<close>) runs the command and displays its output; it does not
  raise into the notebook.
\<close>

definition shell :: "call \<Rightarrow> stmt" where
  "shell c k = (None, log c (Inr VNone) k)"

subsection \<open>The code cells\<close>

text \<open>
  The cells are numbered as in the notebook file, markdown cells included, from 0; the
  code cells are the odd ones from 1 to 21. The \<open>import\<close> statements are taken to
  succeed.
\<close>

text \<open>Cell 1: the session and the execution role.\<close>

definition cell1 :: "world \<Rightarrow> stmt" where
  "cell1 w = block
     [assign V_sagemaker_session (invoke w Session),
      assign V_role (invoke w Get_execution_role)]"

text \<open>
  Cell 3: download the dataset, preprocess it (twice: once into \<open>new_file_paths\<close>, once
  into \<open>train, test, vocab\<close>), and print the first 20 lines of the first file.
\<close>

definition cell3 :: "world \<Rightarrow> stmt" where
  "cell3 w = block
     [assign V_file_paths (invoke w (Download_dataset ''stsa.binary'')),
      assign V_new_file_paths (bind (name V_file_paths) (\<lambda>fp. invoke w (Get_stsa_dataset fp))),
      assign3 V_train V_test V_vocab
        (bind (name V_file_paths) (\<lambda>fp. invoke w (Get_stsa_dataset fp))),
      with_open w (bind (name V_file_paths) (\<lambda>fp. pure (py_index fp 0))) V_f
        (for_each V_i (map (\<lambda>n. VInt (int n)) [0..<20])
           (block [assign V_line (readline V_f), print_name V_line]))]"

text \<open>
  Cell 5: split the datasets into data and labels, write the three array files below
  \<open>/tmp/data\<close>, upload the three directories, and remove \<open>/tmp/data\<close> in any case.
\<close>

definition cell5_try :: "world \<Rightarrow> stmt" where
  "cell5_try w = block
     [makedirs ''/tmp/data/train_sentiment'',
      makedirs ''/tmp/data/test_sentiment'',
      makedirs ''/tmp/data/vocab'',
      savez w ''/tmp/data/train_sentiment/train.npz'' ''data'' V_train_data ''labels'' V_train_labels,
      savez w ''/tmp/data/test_sentiment/test.npz'' ''data'' V_test_data ''labels'' V_test_labels,
      save w ''/tmp/data/vocab/vocab.npy'' V_vocab,
      assign V_train_input
        (upload_data w V_sagemaker_session (os_path_join ''/tmp'' [''data'', ''train_sentiment''])
           ''notebook/chainer_sentiment/train''),
      assign V_test_input
        (upload_data w V_sagemaker_session (os_path_join ''/tmp'' [''data'', ''test_sentiment''])
           ''notebook/chainer_sentiment/test''),
      assign V_vocab_input
        (upload_data w V_sagemaker_session (os_path_join ''/tmp'' [''data'', ''vocab''])
           ''notebook/chainer_sentiment/vocab'')]"

definition cell5 :: "world \<Rightarrow> stmt" where
  "cell5 w = block
     [assign V_train_data
        (bind (name V_train) (\<lambda>v. pure (comprehension (\<lambda>element. py_index element 0) v))),
      assign V_train_labels
        (bind (name V_train) (\<lambda>v. pure (comprehension (\<lambda>element. py_index element 1) v))),
      assign V_test_data
        (bind (name V_test) (\<lambda>v. pure (comprehension (\<lambda>element. py_index element 0) v))),
      assign V_test_labels
        (bind (name V_test) (\<lambda>v. pure (comprehension (\<lambda>element. py_index element 1) v))),
      try_finally (cell5_try w) (rmtree ''/tmp/data'')]"

text \<open>Cell 7: display the training script.\<close>

definition cell7 :: "world \<Rightarrow> stmt" where
  "cell7 w = shell (Pygmentize ''src/sentiment_analysis.py'')"

text \<open>Cell 9: construct the estimator and run the training job on the three channels.\<close>

definition cell9 :: "world \<Rightarrow> stmt" where
  "cell9 w = block
     [assign V_chainer_estimator
        (bind (name V_role) (\<lambda>r.
         bind (name V_sagemaker_session) (\<lambda>s.
         invoke w (Chainer ''sentiment_analysis.py'' ''src'' r s)))),
      expr_stmt
        (bind (name V_chainer_estimator) (\<lambda>est.
         bind (name V_train_input) (\<lambda>a.
         bind (name V_test_input) (\<lambda>b.
         bind (name V_vocab_input) (\<lambda>c.
         invoke w (Fit est [(''train'', a), (''test'', b), (''vocab'', c)]))))))]"

text \<open>Cell 11: locate the output of the training job and download it.\<close>

definition cell11 :: "world \<Rightarrow> stmt" where
  "cell11 w = block
     [assign V_chainer_training_job
        (bind (name V_chainer_estimator) (\<lambda>est. invoke w (Latest_training_job_name est))),
      assign V_desc
        (bind (name V_sagemaker_session) (\<lambda>s.
         bind (name V_chainer_training_job) (\<lambda>j.
         invoke w (Describe_training_job s j)))),
      assign V_output_data
        (bind (name V_desc) (\<lambda>d.
         bind (pure (py_getitem d ''ModelArtifacts'')) (\<lambda>m.
         bind (pure (py_getitem m ''S3ModelArtifacts'')) (\<lambda>a.
         pure (py_replace ''model.tar.gz'' ''output.tar.gz'' a))))),
      expr_stmt
        (bind (name V_output_data) (\<lambda>od. invoke w (Retrieve_output_from_s3 od ''output/sentiment'')))]"

text \<open>Cell 13: load and display the two plots.\<close>

definition cell13 :: "world \<Rightarrow> stmt" where
  "cell13 w = block
     [assign V_accuracy_graph (invoke w (Image ''output/sentiment/accuracy.png'')),
      assign V_loss_graph (invoke w (Image ''output/sentiment/loss.png'')),
      expr_stmt
        (bind (name V_accuracy_graph) (\<lambda>a.
         bind (name V_loss_graph) (\<lambda>l. invoke w (Display a l))))]"

text \<open>Cell 15: deploy the endpoint.\<close>

definition cell15 :: "world \<Rightarrow> stmt" where
  "cell15 w =
     assign V_predictor (bind (name V_chainer_estimator) (\<lambda>est. invoke w (Deploy est)))"

text \<open>
  The loop that ends both prediction cells: every element of \<open>predictions\<close> is unpacked
  into \<open>sentence, prediction, score\<close> and printed.
\<close>

definition print_prediction :: stmt where
  "print_prediction = block
     [assign3 V_sentence V_prediction V_score (name V_prediction),
      (\<lambda>k. case (vars k V_sentence, vars k V_prediction, vars k V_score) of
              (Some a, Some b, Some c) \<Rightarrow> (None, k\<lparr>out := out k @ [Print_prediction a b c]\<rparr>)
            | _ \<Rightarrow> (Some NameError, k))]"

definition print_predictions :: stmt where
  "print_predictions = for_in V_prediction (name V_predictions) print_prediction"

text \<open>Cell 17: predict on three sample sentences.\<close>

definition sample_sentences :: val where
  "sample_sentences = VList
     [VStr ''It is fun and easy to train Chainer models on Amazon SageMaker!'',
      VStr ''It used to be slow, difficult, and laborious to train and deploy a model to production.'',
      VStr ''But now it is super fast to deploy to production. And I love it when my model generalizes!'']"

definition predict :: "world \<Rightarrow> val expr" where
  "predict w =
     bind (name V_predictor) (\<lambda>p.
     bind (name V_sentences) (\<lambda>ss. invoke w (Predict p ss)))"

definition cell17 :: "world \<Rightarrow> stmt" where
  "cell17 w = block
     [assign V_sentences (pure (Inr sample_sentences)),
      assign V_predictions (predict w),
      print_predictions]"

text \<open>
  Cell 19: read lines of the test file with \<open>readlines(2000)\<close>, drop the first character
  of each and strip it, predict inside the \<open>with\<close> block, predict again after it, and
  print.
\<close>

definition cell19 :: "world \<Rightarrow> stmt" where
  "cell19 w = block
     [with_open w (bind (name V_file_paths) (\<lambda>fp. pure (py_index fp 1))) V_f
        (block
          [assign V_sentences (readlines_of V_f 2000),
           assign V_sentences
             (bind (name V_sentences) (\<lambda>v.
              pure (comprehension
                      (\<lambda>sentence. case py_tail sentence of Inl e \<Rightarrow> Inl e | Inr t \<Rightarrow> py_strip t) v))),
           assign V_predictions (predict w)]),
      assign V_predictions (predict w),
      print_predictions]"

text \<open>Cell 21: delete the endpoint.\<close>

definition cell21 :: "world \<Rightarrow> stmt" where
  "cell21 w =
     expr_stmt (bind (name V_chainer_estimator) (\<lambda>est. invoke w (Delete_endpoint est)))"

text \<open>A top-to-bottom run: the code cells in order; an exception stops the run.\<close>

definition notebook :: "world \<Rightarrow> stmt" where
  "notebook w = block
     [cell1 w, cell3 w, cell5 w, cell7 w, cell9 w, cell11 w,
      cell13 w, cell15 w, cell17 w, cell19 w, cell21 w]"

subsection \<open>Observing a run\<close>

text \<open>The function a call is a call of.\<close>

datatype fn =
    SESSION | GET_EXECUTION_ROLE | DOWNLOAD_DATASET | GET_STSA_DATASET | OPEN
  | MAKEDIRS | SAVEZ | SAVE | UPLOAD_DATA | RMTREE | PYGMENTIZE | CHAINER | FIT
  | LATEST_TRAINING_JOB_NAME | DESCRIBE_TRAINING_JOB | RETRIEVE_OUTPUT_FROM_S3
  | IMAGE | DISPLAY | DEPLOY | PREDICT | DELETE_ENDPOINT

fun fn_of :: "call \<Rightarrow> fn" where
  "fn_of Session = SESSION"
| "fn_of Get_execution_role = GET_EXECUTION_ROLE"
| "fn_of (Download_dataset d) = DOWNLOAD_DATASET"
| "fn_of (Get_stsa_dataset fp) = GET_STSA_DATASET"
| "fn_of (Open p) = OPEN"
| "fn_of (Makedirs p) = MAKEDIRS"
| "fn_of (Savez p kvs) = SAVEZ"
| "fn_of (Save p v) = SAVE"
| "fn_of (Upload_data s p kp fs) = UPLOAD_DATA"
| "fn_of (Rmtree p) = RMTREE"
| "fn_of (Pygmentize p) = PYGMENTIZE"
| "fn_of (Chainer ep sd r s) = CHAINER"
| "fn_of (Fit est chans) = FIT"
| "fn_of (Latest_training_job_name est) = LATEST_TRAINING_JOB_NAME"
| "fn_of (Describe_training_job s j) = DESCRIBE_TRAINING_JOB"
| "fn_of (Retrieve_output_from_s3 src dst) = RETRIEVE_OUTPUT_FROM_S3"
| "fn_of (Image p) = IMAGE"
| "fn_of (Display a b) = DISPLAY"
| "fn_of (Deploy est) = DEPLOY"
| "fn_of (Predict p ss) = PREDICT"
| "fn_of (Delete_endpoint est) = DELETE_ENDPOINT"

definition fns :: "(call \<times> (exn + val)) list \<Rightarrow> fn list" where
  "fns t = map (\<lambda>e. fn_of (fst e)) t"

definition returned :: "call \<times> (exn + val) \<Rightarrow> bool" where
  "returned e = (case snd e of Inl x \<Rightarrow> False | Inr v \<Rightarrow> True)"

text \<open>The calls of a complete top-to-bottom run, in the order of the source.\<close>

definition script :: "fn list" where
  "script =
     [SESSION, GET_EXECUTION_ROLE,
      DOWNLOAD_DATASET, GET_STSA_DATASET, GET_STSA_DATASET, OPEN,
      MAKEDIRS, MAKEDIRS, MAKEDIRS, SAVEZ, SAVEZ, SAVE,
      UPLOAD_DATA, UPLOAD_DATA, UPLOAD_DATA, RMTREE,
      PYGMENTIZE,
      CHAINER, FIT,
      LATEST_TRAINING_JOB_NAME, DESCRIBE_TRAINING_JOB, RETRIEVE_OUTPUT_FROM_S3,
      IMAGE, IMAGE, DISPLAY,
      DEPLOY,
      PREDICT,
      OPEN, PREDICT, PREDICT,
      DELETE_ENDPOINT]"

text \<open>The entry that the \<open>finally\<close> part of cell 5 leaves in the trace.\<close>

definition cleanup :: "call \<times> (exn + val)" where
  "cleanup = (Rmtree ''/tmp/data'', Inr VNone)"

text \<open>
  A piece of trace \<open>t\<close> with outcome \<open>r\<close> follows a list of functions \<open>sc\<close>: a
  completed piece made exactly the calls of \<open>sc\<close> and all returned; a piece that
  raised \<open>e\<close> made a prefix of them, all returned but possibly the last, which then
  raised \<open>e\<close>, and nothing follows but, possibly, one of the endings in \<open>C\<close>.
\<close>

definition follows ::
  "(call \<times> (exn + val)) list set \<Rightarrow> fn list \<Rightarrow> (call \<times> (exn + val)) list \<Rightarrow> exn option \<Rightarrow> bool" where
  "follows C sc t r =
     (case r of
        None \<Rightarrow> fns t = sc \<and> list_all returned t
      | Some e \<Rightarrow>
          (\<exists>main cl. t = main @ cl \<and> prefix (fns main) sc \<and> list_all returned (butlast main) \<and>
             (list_all returned main \<or> (main \<noteq> [] \<and> snd (last main) = Inl e)) \<and>
             (cl = [] \<or> cl \<in> C)))"

definition emits :: "(call \<times> (exn + val)) list set \<Rightarrow> fn list \<Rightarrow> stmt \<Rightarrow> bool" where
  "emits C sc c = (\<forall>k r k'. c k = (r, k') \<longrightarrow> (\<exists>t. trace k' = trace k @ t \<and> follows C sc t r))"

definition raised_of :: "exn + 'a \<Rightarrow> exn option" where
  "raised_of r = (case r of Inl e \<Rightarrow> Some e | Inr v \<Rightarrow> None)"

definition emits_e :: "(call \<times> (exn + val)) list set \<Rightarrow> fn list \<Rightarrow> 'a expr \<Rightarrow> bool" where
  "emits_e C sc m =
     (\<forall>k r k'. m k = (r, k') \<longrightarrow> (\<exists>t. trace k' = trace k @ t \<and> follows C sc t (raised_of r)))"

definition silent :: "stmt \<Rightarrow> bool" where
  "silent c = (\<forall>k r k'. c k = (r, k') \<longrightarrow> trace k' = trace k)"

text \<open>
  The stages of the run that are visible from outside, in the order of the chain. Calls
  that set the run up or work on local files only (session, role, estimator object,
  \<open>open\<close>, \<open>makedirs\<close>, \<open>rmtree\<close>, the shell escape, loading and displaying the plots)
  belong to no stage.
\<close>

datatype stage =
    Download | Preprocess | Upload | Train | Download_artifacts | Deploy_endpoint | Invoke
  | Delete

fun stage_of :: "fn \<Rightarrow> stage option" where
  "stage_of DOWNLOAD_DATASET = Some Download"
| "stage_of GET_STSA_DATASET = Some Preprocess"
| "stage_of SAVEZ = Some Preprocess"
| "stage_of SAVE = Some Preprocess"
| "stage_of UPLOAD_DATA = Some Upload"
| "stage_of FIT = Some Train"
| "stage_of DESCRIBE_TRAINING_JOB = Some Download_artifacts"
| "stage_of RETRIEVE_OUTPUT_FROM_S3 = Some Download_artifacts"
| "stage_of DEPLOY = Some Deploy_endpoint"
| "stage_of PREDICT = Some Invoke"
| "stage_of DELETE_ENDPOINT = Some Delete"
| "stage_of _ = None"

definition chain :: "stage list" where
  "chain =
     [Download, Preprocess, Upload, Train, Download_artifacts, Deploy_endpoint, Invoke, Delete]"

definition stages :: "(call \<times> (exn + val)) list \<Rightarrow> stage list" where
  "stages t = remdups_adj (List.map_filter stage_of (fns t))"

subsection \<open>Worlds to run the notebook in\<close>

text \<open>
  An endpoint that answers every sentence with the label 1 and, as the score, the number
  of calls made before the request: it answers the same request differently when asked
  again.
\<close>

definition endpoint :: "nat \<Rightarrow> val \<Rightarrow> val" where
  "endpoint n ss =
     (case py_iter ss of
        Inl e \<Rightarrow> VList []
      | Inr xs \<Rightarrow> VList (map (\<lambda>s. VTuple [s, VInt 1, VInt (int n)]) xs))"

definition tiny_dataset :: val where
  "tiny_dataset = VTuple
     [VList [VTuple [VArr [4, 5], VInt 1], VTuple [VArr [6], VInt 0]],
      VList [VTuple [VArr [5], VInt 0]],
      VDict [(''good'', VInt 4), (''film'', VInt 5), (''bad'', VInt 6)]]"

fun happy_sdk :: "nat \<Rightarrow> call \<Rightarrow> exn + val" where
  "happy_sdk n Session = Inr (VObj ''session'')"
| "happy_sdk n Get_execution_role = Inr (VStr ''role'')"
| "happy_sdk n (Download_dataset d) = Inr (VList [VStr ''stsa.binary.train'', VStr ''stsa.binary.test''])"
| "happy_sdk n (Get_stsa_dataset fp) = Inr tiny_dataset"
| "happy_sdk n (Upload_data s p kp fs) = Inr (VStr (''s3://bucket/'' @ kp))"
| "happy_sdk n (Chainer ep sd r s) = Inr (VObj ''estimator'')"
| "happy_sdk n (Latest_training_job_name est) = Inr (VStr ''job'')"
| "happy_sdk n (Describe_training_job s j) =
     Inr (VDict [(''ModelArtifacts'', VDict [(''S3ModelArtifacts'', VStr ''s3://bucket/job/model.tar.gz'')])])"
| "happy_sdk n (Image p) = Inr (VObj ''image'')"
| "happy_sdk n (Deploy est) = Inr (VObj ''predictor'')"
| "happy_sdk n (Predict p ss) = Inr (endpoint n ss)"
| "happy_sdk n c = Inr VNone"

definition happy :: world where
  "happy = \<lparr>sdk = happy_sdk, file_text = (\<lambda>n p. Inr ''1 good film\<newline>0 bad film\<newline>'')\<rparr>"


text \<open>
  What a statement inside the \<open>try\<close> block of cell 5 may change: it adds files at or
  below \<open>/tmp/data\<close> (and \<open>/tmp\<close> itself), removes none, binds no names but the three
  upload results, prints nothing, and only extends the trace.
\<close>

definition try_step :: "kernel \<Rightarrow> kernel \<Rightarrow> bool" where
  "try_step k k' =
     ((\<exists>new. files k' = files k @ new \<and> list_all (\<lambda>p. under ''/tmp/data'' p \<or> p = ''/tmp'') new) \<and>
      (\<forall>x. x = V_train_input \<or> x = V_test_input \<or> x = V_vocab_input \<or> vars k' x = vars k x) \<and>
      out k' = out k \<and> prefix (trace k) (trace k'))"

text \<open>
  Modelled from the spec: the module \<open>dataset\<close> (\<open>download_dataset\<close>,
  \<open>get_stsa_dataset\<close>) is imported by the notebook and is not among the sources. The
  spec describes what it yields as a labeled-sentence dataset (sentence, binary label,
  vocabulary mapping), and the notebook's text gives the labels as 1 (positive) and 0
  (negative): the train set and the test set are lists of pairs of a sentence, encoded
  as an array, and a label that is 0 or 1.
\<close>

fun labeled_sentence :: "val \<Rightarrow> bool" where
  "labeled_sentence (VTuple [VArr s, VInt l]) = (l = 0 \<or> l = 1)"
| "labeled_sentence _ = False"

fun labeled_dataset :: "val \<Rightarrow> bool" where
  "labeled_dataset (VList es) = list_all labeled_sentence es"
| "labeled_dataset _ = False"

text \<open>
  A kernel in which the names that cells 5 to 21 read from earlier cells are bound, as a
  run in the world \<open>happy\<close> binds them.
\<close>

definition ready :: kernel where
  "ready =
     \<lparr>vars =
        [V_sagemaker_session \<mapsto> VObj ''session'',
         V_role \<mapsto> VStr ''role'',
         V_file_paths \<mapsto> VList [VStr ''stsa.binary.train'', VStr ''stsa.binary.test''],
         V_train \<mapsto> VList [VTuple [VArr [4, 5], VInt 1], VTuple [VArr [6], VInt 0]],
         V_test \<mapsto> VList [VTuple [VArr [5], VInt 0]],
         V_vocab \<mapsto> VDict [(''good'', VInt 4), (''film'', VInt 5), (''bad'', VInt 6)],
         V_train_input \<mapsto> VStr ''s3://bucket/notebook/chainer_sentiment/train'',
         V_test_input \<mapsto> VStr ''s3://bucket/notebook/chainer_sentiment/test'',
         V_vocab_input \<mapsto> VStr ''s3://bucket/notebook/chainer_sentiment/vocab'',
         V_chainer_estimator \<mapsto> VObj ''estimator'',
         V_predictor \<mapsto> VObj ''predictor''],
      files = [], trace = [], out = []\<rparr>"

text \<open>
  What the loop that ends the prediction cells prints for a value of \<open>predictions\<close>,
  when it runs to its end.
\<close>

definition render :: "val \<Rightarrow> exn + printed list" where
  "render v =
     (case py_iter v of
        Inl e \<Rightarrow> Inl e
      | Inr rows \<Rightarrow>
          map_sum id (map (\<lambda>(a, b, c). Print_prediction a b c)) (traverse py_unpack3 rows))"

text \<open>
  A test file of three lines of 1500 characters each (the label, 1498 letters, the
  newline), and the world \<open>happy\<close> with this file.
\<close>

definition long_line :: string where
  "long_line = CHR ''1'' # replicate 1498 (CHR ''a'')"

definition long_text :: string where
  "long_text = concat (map (\<lambda>l. l @ [CHR 0x0A]) [long_line, long_line, long_line])"


subsection \<open>The training container and the training script\<close>

text \<open>
  The training container is the platform's; cell 6 of the notebook states what it does
  for the input channels: for every channel passed to \<open>fit\<close> it sets the variable
  \<open>SM_CHANNEL_[channel_name]\<close> (\<open>SM_CHANNEL_TRAIN\<close> for the channel \<open>train\<close>,
  \<open>SM_CHANNEL_TEST\<close> for \<open>test\<close>) to the path of the directory that holds the data of
  the channel. \<open>base\<close> is the rest of the environment, \<open>dir\<close> the directory of a
  channel.
\<close>

definition to_upper :: "char \<Rightarrow> char" where
  "to_upper c =
     (case map_of (zip ''abcdefghijklmnopqrstuvwxyz'' ''ABCDEFGHIJKLMNOPQRSTUVWXYZ'') c of
        None \<Rightarrow> c
      | Some u \<Rightarrow> u)"

definition channel_var :: "string \<Rightarrow> string" where
  "channel_var c = ''SM_CHANNEL_'' @ map to_upper c"

definition container_environ ::
  "(string \<rightharpoonup> string) \<Rightarrow> (string \<Rightarrow> string) \<Rightarrow> string list \<Rightarrow> (string \<rightharpoonup> string)" where
  "container_environ base dir channels = base ++ map_of (map (\<lambda>c. (channel_var c, dir c)) channels)"

text \<open>
  The start of the training script, as cell 6 shows it: the defaults of the five
  directory arguments are read with \<open>os.environ[...]\<close>, which raises \<open>KeyError\<close> for a
  variable that is not set. (The six hyperparameter arguments have literal defaults.)
\<close>

definition os_environ :: "(string \<rightharpoonup> string) \<Rightarrow> string \<Rightarrow> exn + string" where
  "os_environ env n = (case env n of None \<Rightarrow> Inl KeyError | Some v \<Rightarrow> Inr v)"

record args =
  output_data_dir :: string
  model_dir :: string
  train :: string
  test :: string
  vocab :: string

definition script_defaults :: "(string \<rightharpoonup> string) \<Rightarrow> exn + args" where
  "script_defaults env =
     (case os_environ env ''SM_OUTPUT_DATA_DIR'' of Inl e \<Rightarrow> Inl e | Inr od \<Rightarrow>
      (case os_environ env ''SM_MODEL_DIR'' of Inl e \<Rightarrow> Inl e | Inr md \<Rightarrow>
       (case os_environ env ''SM_CHANNEL_TRAIN'' of Inl e \<Rightarrow> Inl e | Inr tr \<Rightarrow>
        (case os_environ env ''SM_CHANNEL_TEST'' of Inl e \<Rightarrow> Inl e | Inr te \<Rightarrow>
         (case os_environ env ''SM_CHANNEL_VOCAB'' of Inl e \<Rightarrow> Inl e | Inr vo \<Rightarrow>
            Inr \<lparr>output_data_dir = od, model_dir = md, train = tr, test = te, vocab = vo\<rparr>)))))"

text \<open>
  The sentences that cell 19 computes from the text of the test file: the lines that
  \<open>readlines(2000)\<close> returns, each without its first character and stripped.
\<close>

definition test_sentences :: "string \<Rightarrow> val" where
  "test_sentences txt = VList (map (\<lambda>l. VStr (strip (drop 1 l))) (readlines 2000 (splitlines txt)))"

text \<open>An environment and channel directories to run the training script in.\<close>

definition sagemaker_base :: "string \<rightharpoonup> string" where
  "sagemaker_base =
     [''SM_OUTPUT_DATA_DIR'' \<mapsto> ''/opt/ml/output/data'', ''SM_MODEL_DIR'' \<mapsto> ''/opt/ml/model'',
      ''SM_NUM_GPUS'' \<mapsto> ''1'']"

definition channel_dir :: "string \<Rightarrow> string" where
  "channel_dir c = ''/opt/ml/input/data/'' @ c"

subsection \<open>The hosting container and the hosting script\<close>








section \<open>The shape of a run\<close>

lemma follows_None: "follows C sc t None \<longleftrightarrow> fns t = sc \<and> list_all returned t"
  by (simp add: follows_def)

lemma follows_SomeI:
  "t = main @ cl \<Longrightarrow> prefix (fns main) sc \<Longrightarrow> list_all returned (butlast main) \<Longrightarrow>
   list_all returned main \<or> (main \<noteq> [] \<and> snd (last main) = Inl e) \<Longrightarrow> cl = [] \<or> cl \<in> C \<Longrightarrow>
   follows C sc t (Some e)"
  unfolding follows_def by (simp only: option.case) blast

lemma follows_SomeE:
  assumes "follows C sc t (Some e)"
  obtains main cl where "t = main @ cl" "prefix (fns main) sc" "list_all returned (butlast main)"
    "list_all returned main \<or> (main \<noteq> [] \<and> snd (last main) = Inl e)" "cl = [] \<or> cl \<in> C"
  using assms unfolding follows_def by (simp only: option.case) blast

lemma follows_Nil_None: "follows C [] [] None"
  by (simp add: follows_def fns_def)

lemma follows_Nil_Some: "follows C sc [] (Some e)"
  by (rule follows_SomeI [of _ "[]" "[]"]) (simp_all add: fns_def)

lemma follows_Nil: "follows C [] [] r"
  by (cases r) (simp_all add: follows_Nil_None follows_Nil_Some)

lemma follows_weaken: "follows C sc t None \<Longrightarrow> follows C sc t r"
proof (cases r)
  case (Some e)
  assume "follows C sc t None"
  then have "fns t = sc" "list_all returned t" by (simp_all add: follows_None)
  then have "follows C sc t (Some e)"
    by (intro follows_SomeI [of _ t "[]"]) (auto simp: list_all_iff dest: in_set_butlastD)
  then show ?thesis by (simp add: Some)
qed simp

lemma follows_mono: "follows {} sc t r \<Longrightarrow> follows C sc t r"
  by (cases r) (auto simp: follows_def)

lemma follows_seq:
  assumes "follows C s1 t1 None" and "follows C s2 t2 r"
  shows "follows C (s1 @ s2) (t1 @ t2) r"
proof (cases r)
  case None
  with assms show ?thesis by (simp add: follows_def fns_def)
next
  case (Some e)
  from assms(1) have t1: "fns t1 = s1" "list_all returned t1" by (simp_all add: follows_def)
  from assms(2) have "follows C s2 t2 (Some e)" by (simp add: Some)
  then obtain main cl where m: "t2 = main @ cl" "prefix (fns main) s2"
    "list_all returned (butlast main)"
    "list_all returned main \<or> (main \<noteq> [] \<and> snd (last main) = Inl e)" "cl = [] \<or> cl \<in> C"
    by (rule follows_SomeE)
  have a: "t1 @ t2 = (t1 @ main) @ cl" using m by simp
  have b: "prefix (fns (t1 @ main)) (s1 @ s2)" using t1 m by (simp add: fns_def)
  have c: "list_all returned (butlast (t1 @ main))"
    using t1 m by (cases "main = []") (auto simp: butlast_append list_all_iff dest: in_set_butlastD)
  have d: "list_all returned (t1 @ main) \<or> (t1 @ main \<noteq> [] \<and> snd (last (t1 @ main)) = Inl e)"
    using t1 m by auto
  show ?thesis unfolding Some by (rule follows_SomeI [OF a b c d m(5)])
qed

lemma follows_stop:
  assumes "follows C s1 t (Some e)" shows "follows C (s1 @ s2) t (Some e)"
proof -
  from assms obtain main cl where m: "t = main @ cl" "prefix (fns main) s1"
    "list_all returned (butlast main)"
    "list_all returned main \<or> (main \<noteq> [] \<and> snd (last main) = Inl e)" "cl = [] \<or> cl \<in> C"
    by (rule follows_SomeE)
  from m(2) have "prefix (fns main) (s1 @ s2)" by (rule prefix_prefix)
  then show ?thesis by (rule follows_SomeI [OF m(1) _ m(3) m(4) m(5)])
qed

text \<open>After a piece that ran its expression, a part that makes no call may still raise.\<close>

lemma follows_then_silent:
  assumes "follows C sc t (raised_of r1)" and "\<And>e. r1 = Inl e \<Longrightarrow> r = Some e"
  shows "follows C sc t r"
proof (cases r1)
  case (Inl e)
  with assms show ?thesis by (simp add: raised_of_def)
next
  case (Inr v)
  with assms(1) have "follows C sc t None" by (simp add: raised_of_def)
  then show ?thesis by (rule follows_weaken)
qed

lemma emitsI:
  "(\<And>k r k'. c k = (r, k') \<Longrightarrow> \<exists>t. trace k' = trace k @ t \<and> follows C sc t r) \<Longrightarrow> emits C sc c"
  by (simp add: emits_def)

lemma emitsD: "emits C sc c \<Longrightarrow> c k = (r, k') \<Longrightarrow> \<exists>t. trace k' = trace k @ t \<and> follows C sc t r"
  by (simp add: emits_def)

lemma emits_eI:
  "(\<And>k r k'. m k = (r, k') \<Longrightarrow> \<exists>t. trace k' = trace k @ t \<and> follows C sc t (raised_of r)) \<Longrightarrow>
   emits_e C sc m"
  by (simp add: emits_e_def)

lemma emits_eD:
  "emits_e C sc m \<Longrightarrow> m k = (r, k') \<Longrightarrow> \<exists>t. trace k' = trace k @ t \<and> follows C sc t (raised_of r)"
  by (simp add: emits_e_def)

lemma silentD: "silent c \<Longrightarrow> c k = (r, k') \<Longrightarrow> trace k' = trace k"
  by (simp add: silent_def)

lemma emits_mono: "emits {} sc c \<Longrightarrow> emits C sc c"
  unfolding emits_def using follows_mono by blast

lemma emits_block_Nil: "emits C [] (block [])"
  by (rule emitsI) (auto simp: follows_Nil_None)

lemma emits_block_Cons:
  assumes "emits C s1 c" and "emits C s2 (block cs)" and "sc = s1 @ s2"
  shows "emits C sc (block (c # cs))"
proof (rule emitsI)
  fix k r k' assume run: "block (c # cs) k = (r, k')"
  obtain r1 k1 where c: "c k = (r1, k1)" by (cases "c k")
  from emitsD [OF assms(1) c] obtain t1 where t1: "trace k1 = trace k @ t1" "follows C s1 t1 r1"
    by blast
  show "\<exists>t. trace k' = trace k @ t \<and> follows C sc t r"
  proof (cases r1)
    case None
    with run c have "block cs k1 = (r, k')" by simp
    from emitsD [OF assms(2) this] obtain t2 where t2: "trace k' = trace k1 @ t2" "follows C s2 t2 r"
      by blast
    from t1 None t2 have "follows C (s1 @ s2) (t1 @ t2) r" by (auto intro: follows_seq)
    with t1 t2 assms(3) show ?thesis by auto
  next
    case (Some e)
    with run c have "r = Some e" "k' = k1" by simp_all
    with t1 Some assms(3) show ?thesis by (auto intro: follows_stop)
  qed
qed

lemma emits_e_bind:
  assumes "emits_e C s1 m" and "\<And>v. emits_e C s2 (g v)" and "sc = s1 @ s2"
  shows "emits_e C sc (bind m g)"
proof (rule emits_eI)
  fix k r k' assume run: "bind m g k = (r, k')"
  obtain r1 k1 where c: "m k = (r1, k1)" by (cases "m k")
  from emits_eD [OF assms(1) c] obtain t1
    where t1: "trace k1 = trace k @ t1" "follows C s1 t1 (raised_of r1)"
    by blast
  show "\<exists>t. trace k' = trace k @ t \<and> follows C sc t (raised_of r)"
  proof (cases r1)
    case (Inr v)
    with run c have "g v k1 = (r, k')" by (simp add: bind_def)
    from emits_eD [OF assms(2) this] obtain t2
      where t2: "trace k' = trace k1 @ t2" "follows C s2 t2 (raised_of r)"
      by blast
    from t1 Inr t2 have "follows C (s1 @ s2) (t1 @ t2) (raised_of r)"
      by (auto simp: raised_of_def intro: follows_seq)
    with t1 t2 assms(3) show ?thesis by auto
  next
    case (Inl e)
    with run c have "r = Inl e" "k' = k1" by (simp_all add: bind_def)
    with t1 Inl assms(3) show ?thesis by (auto simp: raised_of_def intro: follows_stop)
  qed
qed

lemma follows_single: "follows C [fn_of c] [(c, r)] (raised_of r)"
proof (cases r)
  case (Inl e)
  have "follows C [fn_of c] [(c, Inl e)] (Some e)"
    by (rule follows_SomeI [of _ "[(c, Inl e)]" "[]"]) (simp_all add: fns_def)
  then show ?thesis using Inl by (simp add: raised_of_def)
next
  case (Inr v)
  then show ?thesis by (simp add: raised_of_def follows_None fns_def returned_def)
qed

lemma emits_e_invoke: "sc = [fn_of c] \<Longrightarrow> emits_e C sc (invoke w c)"
proof (rule emits_eI)
  fix k r k' assume sc: "sc = [fn_of c]" and run: "invoke w c k = (r, k')"
  then have t: "trace k' = trace k @ [(c, r)]" by (auto simp: invoke_def log_def Let_def)
  with sc follows_single [of C c r]
  show "\<exists>t. trace k' = trace k @ t \<and> follows C sc t (raised_of r)" by simp
qed

lemma emits_e_open_read: "emits_e C [OPEN] (open_read w p)"
proof (rule emits_eI)
  fix k r k' assume run: "open_read w p k = (r, k')"
  define a where "a = file_text w (length (trace k)) p"
  from run have t: "trace k' = trace k @ [(Open p, map_sum id VStr a)]"
    and r: "r = map_sum id (\<lambda>t. VFile (splitlines t)) a"
    by (auto simp: open_read_def log_def Let_def a_def)
  have "raised_of r = raised_of (map_sum id VStr a)"
    unfolding r by (cases a) (simp_all add: raised_of_def)
  with follows_single [of C "Open p" "map_sum id VStr a"] t
  show "\<exists>t. trace k' = trace k @ t \<and> follows C [OPEN] t (raised_of r)" by simp
qed

text \<open>Statements and expressions that make no call leave the trace as it is.\<close>

lemma silent_e:
  assumes "\<And>k r k'. m k = (r, k') \<Longrightarrow> trace k' = trace k"
  shows "emits_e C [] m"
proof (rule emits_eI)
  fix k r k' assume "m k = (r, k')"
  then have "trace k' = trace k @ []" using assms by simp
  then show "\<exists>t. trace k' = trace k @ t \<and> follows C [] t (raised_of r)"
    using follows_Nil by blast
qed

lemma emits_silent:
  assumes "silent c"
  shows "emits C [] c"
proof (rule emitsI)
  fix k r k' assume "c k = (r, k')"
  then have "trace k' = trace k @ []" using assms by (simp add: silent_def)
  then show "\<exists>t. trace k' = trace k @ t \<and> follows C [] t r"
    using follows_Nil by blast
qed

lemma emits_e_name: "emits_e C [] (name x)"
  by (rule silent_e) (auto simp: name_def split: option.splits)

lemma emits_e_pure: "emits_e C [] (pure r)"
  by (rule silent_e) (auto simp: pure_def)

lemma emits_e_readline: "emits_e C [] (readline x)"
  by (rule silent_e) (auto simp: readline_def split: option.splits val.splits list.splits)

lemma emits_e_readlines_of: "emits_e C [] (readlines_of x h)"
  by (rule silent_e) (auto simp: readlines_of_def Let_def split: option.splits val.splits)

lemma wrap_expr:
  assumes e: "emits_e C sc m"
    and c: "\<And>k r1 k1 r k'. m k = (r1, k1) \<Longrightarrow> c k = (r, k') \<Longrightarrow>
              trace k' = trace k1 \<and> (\<forall>e. r1 = Inl e \<longrightarrow> r = Some e)"
  shows "emits C sc c"
proof (rule emitsI)
  fix k r k' assume run: "c k = (r, k')"
  obtain r1 k1 where m: "m k = (r1, k1)" by (cases "m k")
  from emits_eD [OF e m] obtain t where t: "trace k1 = trace k @ t" "follows C sc t (raised_of r1)"
    by blast
  from c [OF m run] have "trace k' = trace k1" "\<And>e. r1 = Inl e \<Longrightarrow> r = Some e" by simp_all
  with t follows_then_silent [of C sc t r1 r]
  show "\<exists>t. trace k' = trace k @ t \<and> follows C sc t r" by auto
qed

lemma emits_assign: "emits_e C sc m \<Longrightarrow> emits C sc (assign x m)"
  by (erule wrap_expr) (auto simp: assign_def split: sum.splits)

lemma emits_expr_stmt: "emits_e C sc m \<Longrightarrow> emits C sc (expr_stmt m)"
  by (erule wrap_expr) (auto simp: expr_stmt_def split: sum.splits)

lemma emits_assign3: "emits_e C sc m \<Longrightarrow> emits C sc (assign3 x y z m)"
  by (erule wrap_expr) (auto simp: assign3_def split: sum.splits)

lemma silent_for_each: "silent body \<Longrightarrow> silent (for_each x vs body)"
  unfolding silent_def
proof (induction vs)
  case Nil
  then show ?case by simp
next
  case (Cons v vs)
  show ?case
  proof (intro allI impI)
    fix k r k' assume run: "for_each x (v # vs) body k = (r, k')"
    obtain r1 k1 where b: "body (k\<lparr>vars := (vars k)(x \<mapsto> v)\<rparr>) = (r1, k1)"
      by (cases "body (k\<lparr>vars := (vars k)(x \<mapsto> v)\<rparr>)")
    with Cons.prems have t1: "trace k1 = trace k" by fastforce
    show "trace k' = trace k"
    proof (cases r1)
      case None
      with run b have "for_each x vs body k1 = (r, k')" by simp
      with Cons.IH [OF Cons.prems] t1 show ?thesis by auto
    next
      case (Some e)
      with run b t1 show ?thesis by simp
    qed
  qed
qed

lemma silent_block_Nil: "silent (block [])"
  by (simp add: silent_def)

lemma silent_block_Cons: "silent c \<Longrightarrow> silent (block cs) \<Longrightarrow> silent (block (c # cs))"
  unfolding silent_def by (auto split: prod.splits option.splits)

lemma silent_assign_silent: "(\<And>k r k'. m k = (r, k') \<Longrightarrow> trace k' = trace k) \<Longrightarrow> silent (assign x m)"
  unfolding silent_def by (auto simp: assign_def split: prod.splits sum.splits)

lemma silent_print_name: "silent (print_name x)"
  by (auto simp: silent_def print_name_def split: option.splits)

lemma silent_assign3_name: "silent (assign3 x y z (name v))"
  by (auto simp: silent_def assign3_def name_def split: prod.splits sum.splits option.splits)

lemma silent_print_prediction: "silent print_prediction"
  unfolding print_prediction_def
  by (intro silent_block_Cons silent_block_Nil silent_assign3_name)
     (auto simp: silent_def split: option.splits)

lemma emits_for_in:
  assumes "emits_e C sc m" and "silent body"
  shows "emits C sc (for_in x m body)"
  using assms(1)
proof (rule wrap_expr)
  fix k r1 k1 r k'
  assume m: "m k = (r1, k1)" and run: "for_in x m body k = (r, k')"
  show "trace k' = trace k1 \<and> (\<forall>e. r1 = Inl e \<longrightarrow> r = Some e)"
  proof (cases r1)
    case (Inl e)
    with m run show ?thesis by (simp add: for_in_def)
  next
    case (Inr v)
    show ?thesis
    proof (cases "py_iter v")
      case (Inl e)
      with Inr m run show ?thesis by (simp add: for_in_def)
    next
      case (Inr vs)
      with \<open>r1 = Inr v\<close> m run have "for_each x vs body k1 = (r, k')" by (simp add: for_in_def)
      with silentD [OF silent_for_each [OF assms(2)]] \<open>r1 = Inr v\<close> show ?thesis by simp
    qed
  qed
qed

lemma emits_print_predictions: "emits C [] print_predictions"
  unfolding print_predictions_def
  by (rule emits_for_in [OF emits_e_name silent_print_prediction])

lemma emits_makedirs: "emits C [MAKEDIRS] (makedirs p)"
proof (rule emitsI)
  fix k r k' assume run: "makedirs p k = (r, k')"
  then have "trace k' = trace k @ [(Makedirs p, case r of None \<Rightarrow> Inr VNone | Some e \<Rightarrow> Inl e)]"
    by (auto simp: makedirs_def log_def split: if_splits)
  moreover have "raised_of (case r of None \<Rightarrow> Inr VNone | Some e \<Rightarrow> Inl e) = r"
    by (cases r) (simp_all add: raised_of_def)
  ultimately show "\<exists>t. trace k' = trace k @ t \<and> follows C [MAKEDIRS] t r"
    using follows_single [of C "Makedirs p" "case r of None \<Rightarrow> Inr VNone | Some e \<Rightarrow> Inl e"]
    by simp
qed

lemma emits_shell: "sc = [fn_of c] \<Longrightarrow> emits C sc (shell c)"
proof (rule emitsI)
  fix k r k' assume sc: "sc = [fn_of c]" and run: "shell c k = (r, k')"
  then have "trace k' = trace k @ [(c, Inr VNone)]" "r = None"
    by (auto simp: shell_def log_def)
  with sc follows_single [of C c "Inr VNone"]
  show "\<exists>t. trace k' = trace k @ t \<and> follows C sc t r" by (simp add: raised_of_def)
qed

lemma emits_write_file:
  assumes "sc = [fn_of c]" shows "emits C sc (write_file w c p)"
  by (rule wrap_expr [OF emits_e_invoke [where w = w and c = c, OF assms]])
     (auto simp: write_file_def split: sum.splits)

lemma emits_savez: "emits C [SAVEZ] (savez w p a x b y)"
proof (rule emitsI)
  fix k r k' assume run: "savez w p a x b y k = (r, k')"
  show "\<exists>t. trace k' = trace k @ t \<and> follows C [SAVEZ] t r"
  proof (cases "\<exists>u v. vars k x = Some u \<and> vars k y = Some v")
    case True
    then obtain u v where "vars k x = Some u" "vars k y = Some v" by blast
    with run have "write_file w (Savez p [(a, u), (b, v)]) (with_ext ''.npz'' p) k = (r, k')"
      by (simp add: savez_def name_def)
    from emitsD [OF emits_write_file this] show ?thesis by simp
  next
    case False
    with run have "trace k' = trace k @ []" "r = Some NameError"
      by (auto simp: savez_def name_def split: option.splits)
    then show ?thesis using follows_Nil_Some by blast
  qed
qed

lemma emits_save: "emits C [SAVE] (save w p x)"
proof (rule emitsI)
  fix k r k' assume run: "save w p x k = (r, k')"
  show "\<exists>t. trace k' = trace k @ t \<and> follows C [SAVE] t r"
  proof (cases "vars k x")
    case (Some u)
    with run have "write_file w (Save p u) (with_ext ''.npy'' p) k = (r, k')"
      by (simp add: save_def name_def)
    from emitsD [OF emits_write_file this] show ?thesis by simp
  next
    case None
    with run have "trace k' = trace k @ []" "r = Some NameError"
      by (auto simp: save_def name_def)
    then show ?thesis using follows_Nil_Some by blast
  qed
qed

lemma emits_e_upload_data: "emits_e C [UPLOAD_DATA] (upload_data w s p kp)"
  unfolding upload_data_def
proof (rule emits_e_bind [OF emits_e_name, where ?s2.0 = "[UPLOAD_DATA]"])
  fix v
  show "emits_e C [UPLOAD_DATA]
          (\<lambda>k. invoke w (Upload_data v p kp (filter (\<lambda>q. under p q \<and> q \<noteq> p) (files k))) k)"
  proof (rule emits_eI)
    fix k r k'
    assume "invoke w (Upload_data v p kp (filter (\<lambda>q. under p q \<and> q \<noteq> p) (files k))) k = (r, k')"
    from emits_eD [OF emits_e_invoke this, of "[UPLOAD_DATA]" C]
    show "\<exists>t. trace k' = trace k @ t \<and> follows C [UPLOAD_DATA] t (raised_of r)" by simp
  qed
qed simp

lemma emits_for_each: "silent body \<Longrightarrow> emits C [] (for_each x vs body)"
  by (rule emits_silent [OF silent_for_each])

lemma silent_assign_readline: "silent (assign x (readline y))"
  by (rule silent_assign_silent)
     (auto simp: readline_def split: option.splits val.splits list.splits)

lemmas silent_rules =
  silent_block_Nil silent_block_Cons silent_assign_readline silent_print_name

lemmas emits_rules =
  emits_block_Nil emits_block_Cons emits_assign emits_assign3 emits_expr_stmt
  emits_e_bind emits_e_invoke emits_e_name emits_e_pure emits_e_readline emits_e_readlines_of
  emits_e_open_read emits_e_upload_data emits_makedirs emits_savez emits_save emits_shell
  emits_print_predictions emits_for_each silent_rules

lemma emits_cell1: "emits C [SESSION, GET_EXECUTION_ROLE] (cell1 w)"
  unfolding cell1_def by (rule emits_rules | simp)+

lemma emits_cell3: "emits C [DOWNLOAD_DATASET, GET_STSA_DATASET, GET_STSA_DATASET, OPEN] (cell3 w)"
  unfolding cell3_def with_open_def by (rule emits_rules | simp)+

lemma path_exists_append: "path_exists (xs @ ys) p \<longleftrightarrow> path_exists xs p \<or> path_exists ys p"
  by (auto simp: path_exists_def list_ex_iff)

lemma under_tmp_data:
  "under ''/tmp/data/train_sentiment'' q \<Longrightarrow> under ''/tmp/data'' q"
  by (auto simp: under_def prefix_def)

lemma block_invariant:
  assumes "\<And>c k r k'. c \<in> set cs \<Longrightarrow> c k = (r, k') \<Longrightarrow> P k \<Longrightarrow> P k'"
  shows "block cs k = (r, k') \<Longrightarrow> P k \<Longrightarrow> P k'"
  using assms
proof (induction cs arbitrary: k)
  case Nil
  then show ?case by simp
next
  case (Cons c cs)
  obtain r1 k1 where c: "c k = (r1, k1)" by (cases "c k")
  with Cons.prems(3) [of c k r1 k1] Cons.prems(2) have P1: "P k1" by simp
  show ?case
  proof (cases r1)
    case None
    with Cons.prems(1) c have "block cs k1 = (r, k')" by simp
    then show ?thesis using P1 Cons.prems(3) by (intro Cons.IH [of k1]) auto
  next
    case (Some e)
    with Cons.prems(1) c P1 show ?thesis by simp
  qed
qed

lemma path_exists_tmp_data:
  "path_exists fs ''/tmp/data/train_sentiment'' \<Longrightarrow> path_exists fs ''/tmp/data''"
  by (auto simp: path_exists_def list_ex_iff dest: under_tmp_data)

lemma makedirs_exists:
  assumes "makedirs ''/tmp/data/train_sentiment'' k = (r, k')"
  shows "path_exists (files k') ''/tmp/data''"
proof (cases "path_exists (files k) ''/tmp/data/train_sentiment''")
  case True
  with assms have "files k' = files k" by (auto simp: makedirs_def log_def)
  with True show ?thesis by (simp add: path_exists_tmp_data)
next
  case False
  have "path_exists [''/tmp/data/train_sentiment''] ''/tmp/data''"
    by (simp add: path_exists_def under_def)
  with False assms show ?thesis
    by (auto simp: makedirs_def log_def path_exists_append)
qed

lemma cell5_try_exists:
  assumes "cell5_try w k = (r, k')" shows "path_exists (files k') ''/tmp/data''"
proof -
  obtain r1 k1 where c: "makedirs ''/tmp/data/train_sentiment'' k = (r1, k1)"
    by (cases "makedirs ''/tmp/data/train_sentiment'' k")
  then have P1: "path_exists (files k1) ''/tmp/data''" by (rule makedirs_exists)
  show ?thesis
  proof (cases r1)
    case (Some e)
    with assms c P1 show ?thesis by (simp add: cell5_try_def)
  next
    case None
    with assms c have "block (tl
     [makedirs ''/tmp/data/train_sentiment'',
      makedirs ''/tmp/data/test_sentiment'',
      makedirs ''/tmp/data/vocab'',
      savez w ''/tmp/data/train_sentiment/train.npz'' ''data'' V_train_data ''labels'' V_train_labels,
      savez w ''/tmp/data/test_sentiment/test.npz'' ''data'' V_test_data ''labels'' V_test_labels,
      save w ''/tmp/data/vocab/vocab.npy'' V_vocab,
      assign V_train_input
        (upload_data w V_sagemaker_session (os_path_join ''/tmp'' [''data'', ''train_sentiment''])
           ''notebook/chainer_sentiment/train''),
      assign V_test_input
        (upload_data w V_sagemaker_session (os_path_join ''/tmp'' [''data'', ''test_sentiment''])
           ''notebook/chainer_sentiment/test''),
      assign V_vocab_input
        (upload_data w V_sagemaker_session (os_path_join ''/tmp'' [''data'', ''vocab''])
           ''notebook/chainer_sentiment/vocab'')]) k1 = (r, k')"
      by (simp add: cell5_try_def)
    then show ?thesis
    proof (rule block_invariant [where P = "\<lambda>k. path_exists (files k) ''/tmp/data''", rotated])
      show "path_exists (files k1) ''/tmp/data''" by (rule P1)
    next
      fix c k r k'
      assume "c \<in> set (tl
     [makedirs ''/tmp/data/train_sentiment'',
      makedirs ''/tmp/data/test_sentiment'',
      makedirs ''/tmp/data/vocab'',
      savez w ''/tmp/data/train_sentiment/train.npz'' ''data'' V_train_data ''labels'' V_train_labels,
      savez w ''/tmp/data/test_sentiment/test.npz'' ''data'' V_test_data ''labels'' V_test_labels,
      save w ''/tmp/data/vocab/vocab.npy'' V_vocab,
      assign V_train_input
        (upload_data w V_sagemaker_session (os_path_join ''/tmp'' [''data'', ''train_sentiment''])
           ''notebook/chainer_sentiment/train''),
      assign V_test_input
        (upload_data w V_sagemaker_session (os_path_join ''/tmp'' [''data'', ''test_sentiment''])
           ''notebook/chainer_sentiment/test''),
      assign V_vocab_input
        (upload_data w V_sagemaker_session (os_path_join ''/tmp'' [''data'', ''vocab''])
           ''notebook/chainer_sentiment/vocab'')])"
        and "c k = (r, k')" and "path_exists (files k) ''/tmp/data''"
      then show "path_exists (files k') ''/tmp/data''"
        by (auto simp: makedirs_def savez_def save_def write_file_def assign_def upload_data_def
              bind_def name_def invoke_def log_def Let_def path_exists_append
              split: if_splits option.splits sum.splits prod.splits)
    qed
  qed
qed

lemma emits_try_finally_rmtree:
  assumes body: "emits {} sb body"
    and ex: "\<And>k r k'. body k = (r, k') \<Longrightarrow> path_exists (files k') ''/tmp/data''"
    and sc: "sc = sb @ [RMTREE]"
  shows "emits {[cleanup]} sc (try_finally body (rmtree ''/tmp/data''))"
proof (rule emitsI)
  fix k r k' assume run: "try_finally body (rmtree ''/tmp/data'') k = (r, k')"
  obtain rb kb where b: "body k = (rb, kb)" by (cases "body k")
  from emitsD [OF body b] obtain tb where tb: "trace kb = trace k @ tb" "follows {} sb tb rb"
    by blast
  from ex [OF b] have "rmtree ''/tmp/data'' kb =
      (None, log (Rmtree ''/tmp/data'') (Inr VNone) (kb\<lparr>files := filter (\<lambda>q. \<not> under ''/tmp/data'' q) (files kb)\<rparr>))"
    by (simp add: rmtree_def)
  with run b have r: "r = rb" and t: "trace k' = trace kb @ [cleanup]"
    by (auto simp: try_finally_def log_def cleanup_def)
  have "follows {[cleanup]} (sb @ [RMTREE]) (tb @ [cleanup]) rb"
  proof (cases rb)
    case None
    with tb show ?thesis by (simp add: follows_None fns_def cleanup_def returned_def)
  next
    case (Some e)
    with tb(2) have "follows {} sb tb (Some e)" by simp
    then obtain main cl where m: "tb = main @ cl" "prefix (fns main) sb"
      "list_all returned (butlast main)"
      "list_all returned main \<or> (main \<noteq> [] \<and> snd (last main) = Inl e)" "cl = [] \<or> cl \<in> {}"
      by (rule follows_SomeE)
    then have cl: "cl = []" by simp
    from m(2) have p: "prefix (fns main) (sb @ [RMTREE])" by (rule prefix_prefix)
    have "follows {[cleanup]} (sb @ [RMTREE]) (main @ [cleanup]) (Some e)"
      by (rule follows_SomeI [OF refl p m(3) m(4)]) simp
    with m(1) cl Some show ?thesis by simp
  qed
  with tb t r sc show "\<exists>t. trace k' = trace k @ t \<and> follows {[cleanup]} sc t r" by simp
qed

lemma emits_cell5_try:
  "emits {} [MAKEDIRS, MAKEDIRS, MAKEDIRS, SAVEZ, SAVEZ, SAVE, UPLOAD_DATA, UPLOAD_DATA, UPLOAD_DATA]
     (cell5_try w)"
  unfolding cell5_try_def by (rule emits_rules | simp)+

lemma emits_cell5:
  "emits {[cleanup]}
     [MAKEDIRS, MAKEDIRS, MAKEDIRS, SAVEZ, SAVEZ, SAVE, UPLOAD_DATA, UPLOAD_DATA, UPLOAD_DATA, RMTREE]
     (cell5 w)"
  unfolding cell5_def
  by (rule emits_rules emits_try_finally_rmtree [OF emits_cell5_try cell5_try_exists] | simp)+

lemma emits_cell7: "emits C [PYGMENTIZE] (cell7 w)"
  unfolding cell7_def by (rule emits_rules | simp)+

lemma emits_cell9: "emits C [CHAINER, FIT] (cell9 w)"
  unfolding cell9_def by (rule emits_rules | simp)+

lemma emits_cell11:
  "emits C [LATEST_TRAINING_JOB_NAME, DESCRIBE_TRAINING_JOB, RETRIEVE_OUTPUT_FROM_S3] (cell11 w)"
  unfolding cell11_def by (rule emits_rules | simp)+

lemma emits_cell13: "emits C [IMAGE, IMAGE, DISPLAY] (cell13 w)"
  unfolding cell13_def by (rule emits_rules | simp)+

lemma emits_cell15: "emits C [DEPLOY] (cell15 w)"
  unfolding cell15_def by (rule emits_rules | simp)+

lemma emits_cell17: "emits C [PREDICT] (cell17 w)"
  unfolding cell17_def predict_def by (rule emits_rules | simp)+

lemma emits_cell19: "emits C [OPEN, PREDICT, PREDICT] (cell19 w)"
  unfolding cell19_def predict_def with_open_def by (rule emits_rules | simp)+

lemma emits_cell21: "emits C [DELETE_ENDPOINT] (cell21 w)"
  unfolding cell21_def by (rule emits_rules | simp)+

lemmas emits_cells =
  emits_cell1 emits_cell3 emits_cell5 emits_cell7 emits_cell9 emits_cell11 emits_cell13
  emits_cell15 emits_cell17 emits_cell19 emits_cell21

lemma emits_notebook: "emits {[cleanup]} script (notebook w)"
  unfolding notebook_def
  by (rule emits_block_Cons emits_block_Nil emits_cells | simp add: script_def)+

lemma notebook_follows:
  assumes "notebook w (fresh fs0) = (r, k)"
  shows "follows {[cleanup]} script (trace k) r"
  using emitsD [OF emits_notebook assms] by (simp add: fresh_def)

section \<open>Whole runs\<close>

text \<open>The definitions to unfold when a run in a concrete world is evaluated.\<close>

lemmas cell_defs = notebook_def cell1_def cell3_def cell5_def cell5_try_def cell7_def cell9_def
  cell11_def cell13_def cell15_def cell17_def cell19_def cell21_def fresh_def assign_def assign3_def
  invoke_def log_def bind_def name_def pure_def expr_stmt_def try_finally_def with_open_def
  open_read_def readline_def readlines_of_def print_name_def makedirs_def rmtree_def write_file_def
  savez_def save_def upload_data_def shell_def print_predictions_def print_prediction_def predict_def
  for_in_def sample_sentences_def py_unpack3_def comprehension_def seq_index_def tiny_dataset_def
  endpoint_def path_exists_def under_def ancestors_def with_ext_def Let_def upt_conv_Cons suffix_def

lemmas run_defs = cell_defs readlines_def strip_def is_space_def str_replace_def

lemma prefix_remdups_adj: "prefix xs ys \<Longrightarrow> prefix (remdups_adj xs) (remdups_adj ys)"
proof (induction xs arbitrary: ys rule: remdups_adj.induct)
  case 1
  then show ?case by simp
next
  case (2 x)
  then obtain zs where "ys = x # zs" by (auto simp: prefix_def)
  then show ?case by (auto simp: remdups_adj_Cons split: list.splits)
next
  case (3 x y xs)
  then obtain zs where ys: "ys = x # y # zs" and p: "prefix xs zs"
    by (auto simp: prefix_def)
  then have "prefix (y # xs) (y # zs)" by simp
  with 3 ys show ?case by (cases "x = y") auto
qed

lemma prefix_map_filter: "prefix xs ys \<Longrightarrow> prefix (List.map_filter g xs) (List.map_filter g ys)"
  by (auto simp: prefix_def List.map_filter_def)

lemma stages_script: "remdups_adj (List.map_filter stage_of script) = chain"
  by (simp add: script_def chain_def List.map_filter_simps)

text \<open>
  C1. In every top-to-bottom run the stages visible from outside occur in the order
  download, preprocess, upload, train (fit), download the artifacts, deploy, invoke,
  delete: the stages of the trace are a prefix of this chain, they are the whole chain
  when the run completes, and a call of a stage is made only after every earlier call
  has returned.
\<close>

theorem stages_in_order:
  assumes "notebook w (fresh fs0) = (r, k)"
  shows "prefix (stages (trace k)) chain \<and>
         (r = None \<longrightarrow> stages (trace k) = chain) \<and>
         (\<forall>i < length (trace k).
            stage_of (fn_of (fst (trace k ! i))) \<noteq> None \<longrightarrow> list_all returned (take i (trace k)))"
proof (cases r)
  case None
  with notebook_follows [OF assms] have "fns (trace k) = script" "list_all returned (trace k)"
    by (simp_all add: follows_None)
  then show ?thesis
    by (auto simp: stages_def stages_script list_all_iff dest: in_set_takeD)
next
  case (Some e)
  with notebook_follows [OF assms] have "follows {[cleanup]} script (trace k) (Some e)" by simp
  then obtain main cl where m: "trace k = main @ cl" "prefix (fns main) script"
    "list_all returned (butlast main)"
    "list_all returned main \<or> (main \<noteq> [] \<and> snd (last main) = Inl e)" "cl = [] \<or> cl \<in> {[cleanup]}"
    by (rule follows_SomeE)
  have cl: "List.map_filter stage_of (fns cl) = []"
    using m(5) by (auto simp: fns_def cleanup_def List.map_filter_simps)
  have "stages (trace k) = remdups_adj (List.map_filter stage_of (fns main))"
    using m(1) cl by (simp add: stages_def fns_def List.map_filter_def)
  also have "prefix \<dots> (remdups_adj (List.map_filter stage_of script))"
    by (intro prefix_remdups_adj prefix_map_filter m(2))
  finally have a: "prefix (stages (trace k)) chain" by (simp add: stages_script)
  have b: "list_all returned (take i (trace k))"
    if i: "i < length (trace k)" and s: "stage_of (fn_of (fst (trace k ! i))) \<noteq> None" for i
  proof -
    have "i < length main"
    proof (rule ccontr)
      assume "\<not> i < length main"
      with i m(1) m(5) have "trace k ! i = cleanup"
        by (auto simp: nth_append)
      with s show False by (simp add: cleanup_def)
    qed
    then have "take i (trace k) = take i (butlast main)"
      using m(1) by (simp add: take_butlast)
    with m(3) show ?thesis by (auto simp: list_all_iff dest: in_set_takeD)
  qed
  from a b Some show ?thesis by simp
qed




text \<open>Two runs, evaluated: one that completes and one whose second upload fails.\<close>

lemma happy_run:
  assumes "notebook happy (fresh []) = (r, k)"
  shows "r = None \<and> \<not> distinct (map fst (trace k))"
  using assms by (clarsimp simp: run_defs happy_def)


text \<open>C1 in the world \<open>happy\<close>: the run completes, and call 18 of the run is \<open>fit\<close>.\<close>

theorem stages_in_order_witness:
  "fst (notebook happy (fresh [])) = None \<and>
   stages (trace (snd (notebook happy (fresh [])))) = chain \<and>
   list_all returned (take 18 (trace (snd (notebook happy (fresh [])))))"
proof -
  obtain r k where run: "notebook happy (fresh []) = (r, k)"
    by (cases "notebook happy (fresh [])")
  from happy_run [OF run] have r: "r = None" by simp
  with notebook_follows [OF run] have f: "fns (trace k) = script" by (simp add: follows_None)
  have "length (fns (trace k)) = length (trace k)" by (simp add: fns_def)
  with f have len: "18 < length (trace k)" by (simp add: script_def)
  then have "fn_of (fst (trace k ! 18)) = fns (trace k) ! 18" by (simp add: fns_def)
  with f have st: "stage_of (fn_of (fst (trace k ! 18))) \<noteq> None" by (simp add: script_def)
  from stages_in_order [OF run] r len st show ?thesis using run by simp
qed




section \<open>The files of cell 5\<close>

lemma ancestors_train: "ancestors ''/tmp/data/train_sentiment'' = [''/tmp'', ''/tmp/data'']"
  by (simp add: ancestors_def upt_conv_Cons)

lemma ancestors_test: "ancestors ''/tmp/data/test_sentiment'' = [''/tmp'', ''/tmp/data'']"
  by (simp add: ancestors_def upt_conv_Cons)

lemma ancestors_vocab: "ancestors ''/tmp/data/vocab'' = [''/tmp'', ''/tmp/data'']"
  by (simp add: ancestors_def upt_conv_Cons)

lemma try_step_refl: "try_step k k"
  by (simp add: try_step_def)

lemma try_step_add:
  assumes "files k' = files k @ new" "list_all (\<lambda>p. under ''/tmp/data'' p \<or> p = ''/tmp'') new"
    "\<And>x. x = V_train_input \<or> x = V_test_input \<or> x = V_vocab_input \<or> vars k' x = vars k x"
    "out k' = out k" "prefix (trace k) (trace k')"
  shows "try_step k k'"
  unfolding try_step_def using assms by blast

lemma try_step_trans:
  assumes "try_step k k1" and "try_step k1 k2"
  shows "try_step k k2"
proof -
  from assms(1) obtain n1 where a: "files k1 = files k @ n1"
    "list_all (\<lambda>p. under ''/tmp/data'' p \<or> p = ''/tmp'') n1"
    "\<And>x. x = V_train_input \<or> x = V_test_input \<or> x = V_vocab_input \<or> vars k1 x = vars k x"
    "out k1 = out k" "prefix (trace k) (trace k1)"
    unfolding try_step_def by blast
  from assms(2) obtain n2 where b: "files k2 = files k1 @ n2"
    "list_all (\<lambda>p. under ''/tmp/data'' p \<or> p = ''/tmp'') n2"
    "\<And>x. x = V_train_input \<or> x = V_test_input \<or> x = V_vocab_input \<or> vars k2 x = vars k1 x"
    "out k2 = out k1" "prefix (trace k1) (trace k2)"
    unfolding try_step_def by blast
  show ?thesis
  proof (rule try_step_add [of _ _ "n1 @ n2"])
    show "files k2 = files k @ n1 @ n2" using a(1) b(1) by simp
    show "list_all (\<lambda>p. under ''/tmp/data'' p \<or> p = ''/tmp'') (n1 @ n2)" using a(2) b(2) by simp
    show "out k2 = out k" using a(4) b(4) by simp
    show "prefix (trace k) (trace k2)" using a(5) b(5) by (rule prefix_order.trans)
    fix x
    show "x = V_train_input \<or> x = V_test_input \<or> x = V_vocab_input \<or> vars k2 x = vars k x"
      using a(3) [of x] b(3) [of x] by auto
  qed
qed

lemma makedirs_step:
  assumes "makedirs p k = (r, k')"
    and "list_all (\<lambda>p. under ''/tmp/data'' p \<or> p = ''/tmp'') (ancestors p @ [p])"
  shows "try_step k k'"
proof (cases "path_exists (files k) p")
  case True
  with assms(1) have "k' = log (Makedirs p) (Inl FileExistsError) k" by (simp add: makedirs_def)
  then show ?thesis by (intro try_step_add [of _ _ "[]"]) (simp_all add: log_def)
next
  case False
  with assms(1) have "k' = log (Makedirs p) (Inr VNone)
      (k\<lparr>files := files k @ [a \<leftarrow> ancestors p. \<not> path_exists (files k) a] @ [p]\<rparr>)"
    by (simp add: makedirs_def)
  then show ?thesis using assms(2)
    by (intro try_step_add [of _ _ "[a \<leftarrow> ancestors p. \<not> path_exists (files k) a] @ [p]"])
       (simp_all add: log_def list_all_iff)
qed

lemma write_file_step:
  assumes "write_file w c p k = (r, k')" and "under ''/tmp/data'' p"
  shows "try_step k k'"
proof (cases "sdk w (length (trace k)) c")
  case (Inl e)
  with assms(1) have "k' = log c (Inl e) k" by (simp add: write_file_def invoke_def Let_def)
  then show ?thesis by (intro try_step_add [of _ _ "[]"]) (simp_all add: log_def)
next
  case (Inr v)
  with assms(1) have "k' = (log c (Inr v) k)\<lparr>files := files k @ [p]\<rparr>"
    by (simp add: write_file_def invoke_def Let_def log_def)
  then show ?thesis using assms(2)
    by (intro try_step_add [of _ _ "[p]"]) (simp_all add: log_def)
qed

lemma savez_step:
  assumes "savez w p a x b y k = (r, k')" and "under ''/tmp/data'' (with_ext ''.npz'' p)"
  shows "try_step k k'"
proof (cases "\<exists>u v. vars k x = Some u \<and> vars k y = Some v")
  case True
  then obtain u v where "vars k x = Some u" "vars k y = Some v" by blast
  with assms(1) have "write_file w (Savez p [(a, u), (b, v)]) (with_ext ''.npz'' p) k = (r, k')"
    by (simp add: savez_def name_def)
  then show ?thesis using assms(2) by (rule write_file_step)
next
  case False
  with assms(1) have "k' = k" by (auto simp: savez_def name_def split: option.splits)
  then show ?thesis by (simp add: try_step_refl)
qed

lemma save_step:
  assumes "save w p x k = (r, k')" and "under ''/tmp/data'' (with_ext ''.npy'' p)"
  shows "try_step k k'"
proof (cases "vars k x")
  case (Some u)
  with assms(1) have "write_file w (Save p u) (with_ext ''.npy'' p) k = (r, k')"
    by (simp add: save_def name_def)
  then show ?thesis using assms(2) by (rule write_file_step)
next
  case None
  with assms(1) have "k' = k" by (auto simp: save_def name_def)
  then show ?thesis by (simp add: try_step_refl)
qed

lemma upload_step:
  assumes "assign x (upload_data w s p kp) k = (r, k')"
    and "x = V_train_input \<or> x = V_test_input \<or> x = V_vocab_input"
  shows "try_step k k'"
proof -
  from assms(1) have "files k' = files k @ []" "out k' = out k" "prefix (trace k) (trace k')"
    "\<And>y. y \<noteq> x \<Longrightarrow> vars k' y = vars k y"
    by (auto simp: assign_def upload_data_def bind_def name_def invoke_def log_def Let_def
          split: option.splits sum.splits)
  then show ?thesis using assms(2) by (intro try_step_add [of _ _ "[]"]) auto
qed

lemma cell5_try_step:
  assumes "cell5_try w k = (r, k')"
  shows "try_step k k'"
  using assms unfolding cell5_try_def
proof (rule block_invariant [where P = "try_step k", rotated])
  show "try_step k k" by (rule try_step_refl)
next
  fix c k1 r k2
  assume c: "c \<in> set [makedirs ''/tmp/data/train_sentiment'',
      makedirs ''/tmp/data/test_sentiment'',
      makedirs ''/tmp/data/vocab'',
      savez w ''/tmp/data/train_sentiment/train.npz'' ''data'' V_train_data ''labels'' V_train_labels,
      savez w ''/tmp/data/test_sentiment/test.npz'' ''data'' V_test_data ''labels'' V_test_labels,
      save w ''/tmp/data/vocab/vocab.npy'' V_vocab,
      assign V_train_input
        (upload_data w V_sagemaker_session (os_path_join ''/tmp'' [''data'', ''train_sentiment''])
           ''notebook/chainer_sentiment/train''),
      assign V_test_input
        (upload_data w V_sagemaker_session (os_path_join ''/tmp'' [''data'', ''test_sentiment''])
           ''notebook/chainer_sentiment/test''),
      assign V_vocab_input
        (upload_data w V_sagemaker_session (os_path_join ''/tmp'' [''data'', ''vocab''])
           ''notebook/chainer_sentiment/vocab'')]"
    and run: "c k1 = (r, k2)" and st: "try_step k k1"
  have "try_step k1 k2"
    using c [simplified] run
    apply (elim disjE)
    subgoal by hypsubst (rule makedirs_step [of _ k1 r], assumption, simp add: ancestors_train under_def)
    subgoal by hypsubst (rule makedirs_step [of _ k1 r], assumption, simp add: ancestors_test under_def)
    subgoal by hypsubst (rule makedirs_step [of _ k1 r], assumption, simp add: ancestors_vocab under_def)
    subgoal by hypsubst (rule savez_step [of w _ _ _ _ _ k1 r], assumption, simp add: under_def with_ext_def suffix_def)
    subgoal by hypsubst (rule savez_step [of w _ _ _ _ _ k1 r], assumption, simp add: under_def with_ext_def suffix_def)
    subgoal by hypsubst (rule save_step [of w _ _ k1 r], assumption, simp add: under_def with_ext_def suffix_def)
    subgoal by hypsubst (rule upload_step [of _ w _ _ _ k1 r], assumption, simp)
    subgoal by hypsubst (rule upload_step [of _ w _ _ _ k1 r], assumption, simp)
    subgoal by hypsubst (rule upload_step [of _ w _ _ _ k1 r], assumption, simp)
    done
  with st show "try_step k k2" by (rule try_step_trans)
qed

lemma cell5_finally:
  assumes "try_finally (cell5_try w) (rmtree ''/tmp/data'') k4 = (r, k')"
  obtains kb where "cell5_try w k4 = (r, kb)" "try_step k4 kb"
    "k' = log (Rmtree ''/tmp/data'') (Inr VNone)
            (kb\<lparr>files := filter (\<lambda>q. \<not> under ''/tmp/data'' q) (files kb)\<rparr>)"
proof -
  obtain rb kb where b: "cell5_try w k4 = (rb, kb)" by (cases "cell5_try w k4")
  from cell5_try_exists [OF b] have "rmtree ''/tmp/data'' kb =
      (None, log (Rmtree ''/tmp/data'') (Inr VNone)
               (kb\<lparr>files := filter (\<lambda>q. \<not> under ''/tmp/data'' q) (files kb)\<rparr>))"
    by (simp add: rmtree_def)
  with assms b have "r = rb"
    "k' = log (Rmtree ''/tmp/data'') (Inr VNone)
            (kb\<lparr>files := filter (\<lambda>q. \<not> under ''/tmp/data'' q) (files kb)\<rparr>)"
    by (simp_all add: try_finally_def)
  with b cell5_try_step [OF b] that show thesis by simp
qed

lemma assign_pure:
  "assign x (bind (name y) (\<lambda>v. pure (g v))) k =
     (case vars k y of
        None \<Rightarrow> (Some NameError, k)
      | Some v \<Rightarrow>
          (case g v of Inl e \<Rightarrow> (Some e, k) | Inr u \<Rightarrow> (None, k\<lparr>vars := (vars k)(x \<mapsto> u)\<rparr>)))"
  by (simp add: assign_def bind_def name_def pure_def split: option.splits sum.splits)

lemma proj_step:
  assumes "assign x (bind (name y) (\<lambda>v. pure (g v))) k = (r, k1)"
  shows "files k1 = files k \<and> trace k1 = trace k \<and> out k1 = out k \<and>
         (\<forall>z. z \<noteq> x \<longrightarrow> vars k1 z = vars k z) \<and>
         (r = None \<longrightarrow> (\<exists>v u. vars k y = Some v \<and> g v = Inr u \<and> vars k1 x = Some u))"
  using assms unfolding assign_pure by (auto split: option.splits sum.splits)

lemma block_ConsE:
  assumes "block (c # cs) k = (r, k')"
  obtains (stop) e where "c k = (Some e, k')" "r = Some e"
        | (go) k1 where "c k = (None, k1)" "block cs k1 = (r, k')"
proof -
  obtain r1 k1 where c: "c k = (r1, k1)" by (cases "c k")
  show thesis
  proof (cases r1)
    case None
    with assms c have "c k = (None, k1)" "block cs k1 = (r, k')" by simp_all
    then show ?thesis by (rule go)
  next
    case (Some e)
    with assms c have "c k = (Some e, k')" "r = Some e" by simp_all
    then show ?thesis by (rule stop)
  qed
qed

lemma block_go: "c k = (None, k1) \<Longrightarrow> block (c # cs) k = block cs k1"
  by simp

lemma block_single: "block [c] k = c k"
  by (cases "c k") (auto split: option.splits)

text \<open>Cell 5 either stops in its four assignments, which touch nothing but names, or
  enters its \<open>try\<close> statement with the four projections bound.\<close>

lemma cell5_split:
  assumes "cell5 w k = (r, k')"
  obtains (early) e where "r = Some e" "files k' = files k" "trace k' = trace k" "out k' = out k"
  | (entered) k4 tr te a b c d where
      "try_finally (cell5_try w) (rmtree ''/tmp/data'') k4 = (r, k')"
      "files k4 = files k" "trace k4 = trace k" "out k4 = out k"
      "vars k V_train = Some tr" "vars k V_test = Some te"
      "comprehension (\<lambda>element. py_index element 0) tr = Inr a"
      "comprehension (\<lambda>element. py_index element 1) tr = Inr b"
      "comprehension (\<lambda>element. py_index element 0) te = Inr c"
      "comprehension (\<lambda>element. py_index element 1) te = Inr d"
      "vars k4 V_train_data = Some a" "vars k4 V_train_labels = Some b"
      "vars k4 V_test_data = Some c" "vars k4 V_test_labels = Some d"
      "\<And>z. z \<noteq> V_train_data \<Longrightarrow> z \<noteq> V_train_labels \<Longrightarrow> z \<noteq> V_test_data \<Longrightarrow> z \<noteq> V_test_labels
         \<Longrightarrow> vars k4 z = vars k z"
  using assms unfolding cell5_def
proof (cases rule: block_ConsE)
  case (stop e)
  from proj_step [OF stop(1)] stop(2) early show ?thesis by blast
next
  case g1: (go k1)
  note s1 = proj_step [OF g1(1)]
  from g1(2) show ?thesis
  proof (cases rule: block_ConsE)
    case (stop e)
    from proj_step [OF stop(1)] s1 stop(2) early show ?thesis by simp
  next
    case g2: (go k2)
    note s2 = proj_step [OF g2(1)]
    from g2(2) show ?thesis
    proof (cases rule: block_ConsE)
      case (stop e)
      from proj_step [OF stop(1)] s1 s2 stop(2) early show ?thesis by simp
    next
      case g3: (go k3)
      note s3 = proj_step [OF g3(1)]
      from g3(2) show ?thesis
      proof (cases rule: block_ConsE)
        case (stop e)
        from proj_step [OF stop(1)] s1 s2 s3 stop(2) early show ?thesis by simp
      next
        case g4: (go k4)
        note s4 = proj_step [OF g4(1)]
        from g4(2) have tf: "try_finally (cell5_try w) (rmtree ''/tmp/data'') k4 = (r, k')"
          by (simp only: block_single)
        from s1 obtain tr a where 1: "vars k V_train = Some tr"
          "comprehension (\<lambda>element. py_index element 0) tr = Inr a" "vars k1 V_train_data = Some a"
          by auto
        from s2 s1 1 obtain b where 2:
          "comprehension (\<lambda>element. py_index element 1) tr = Inr b" "vars k2 V_train_labels = Some b"
          by auto
        from s3 s2 s1 obtain te c where 3: "vars k V_test = Some te"
          "comprehension (\<lambda>element. py_index element 0) te = Inr c" "vars k3 V_test_data = Some c"
          by auto
        from s4 s3 s2 s1 3 obtain d where 4:
          "comprehension (\<lambda>element. py_index element 1) te = Inr d" "vars k4 V_test_labels = Some d"
          by auto
        show ?thesis
        proof (rule entered [OF tf _ _ _ 1(1) 3(1) 1(2) 2(1) 3(2) 4(1) _ _ _ 4(2)])
          show "files k4 = files k" "trace k4 = trace k" "out k4 = out k"
            using s1 s2 s3 s4 by simp_all
          show "vars k4 V_train_data = Some a" using 1(3) s2 s3 s4 by simp
          show "vars k4 V_train_labels = Some b" using 2(2) s3 s4 by simp
          show "vars k4 V_test_data = Some c" using 3(3) s4 by simp
          fix z assume "z \<noteq> V_train_data" "z \<noteq> V_train_labels" "z \<noteq> V_test_data" "z \<noteq> V_test_labels"
          then show "vars k4 z = vars k z" using s1 s2 s3 s4 by simp
        qed
      qed
    qed
  qed
qed






lemma traverse_labeled:
  assumes "list_all labeled_sentence es"
  shows "\<exists>d l. traverse (\<lambda>element. py_index element 0) es = Inr d \<and>
               traverse (\<lambda>element. py_index element 1) es = Inr l \<and>
               es = map (\<lambda>(a, b). VTuple [a, b]) (zip d l) \<and> length d = length l \<and>
               list_all (\<lambda>b. b = VInt 0 \<or> b = VInt 1) l \<and> list_all (\<lambda>a. \<exists>s. a = VArr s) d"
  using assms
proof (induction es)
  case Nil
  then show ?case by simp
next
  case (Cons e es)
  then obtain d l where IH: "traverse (\<lambda>element. py_index element 0) es = Inr d"
    "traverse (\<lambda>element. py_index element 1) es = Inr l"
    "es = map (\<lambda>(a, b). VTuple [a, b]) (zip d l)" "length d = length l"
    "list_all (\<lambda>b. b = VInt 0 \<or> b = VInt 1) l" "list_all (\<lambda>a. \<exists>s. a = VArr s) d"
    by auto
  from Cons.prems have "labeled_sentence e" by simp
  then obtain s n where e: "e = VTuple [VArr s, VInt n]" "n = 0 \<or> n = 1"
    by (auto elim: labeled_sentence.elims)
  have "traverse (\<lambda>element. py_index element 0) (e # es) = Inr (VArr s # d)"
    "traverse (\<lambda>element. py_index element 1) (e # es) = Inr (VInt n # l)"
    using IH(1,2) e(1) by (simp_all add: seq_index_def)
  moreover have "e # es = map (\<lambda>(a, b). VTuple [a, b]) (zip (VArr s # d) (VInt n # l))"
    using IH(3) e(1) by simp
  moreover have "list_all (\<lambda>b. b = VInt 0 \<or> b = VInt 1) (VInt n # l)"
    "list_all (\<lambda>a. \<exists>s. a = VArr s) (VArr s # d)" "length (VArr s # d) = length (VInt n # l)"
    using IH(4,5,6) e(2) by simp_all
  ultimately show ?case
    by (intro exI [of _ "VArr s # d"] exI [of _ "VInt n # l"] conjI)
qed

lemma projections_of_labeled:
  assumes "labeled_dataset v"
  shows "\<exists>d l. comprehension (\<lambda>element. py_index element 0) v = Inr (VList d) \<and>
               comprehension (\<lambda>element. py_index element 1) v = Inr (VList l) \<and>
               v = VList (map (\<lambda>(a, b). VTuple [a, b]) (zip d l)) \<and> length d = length l \<and>
               list_all (\<lambda>b. b = VInt 0 \<or> b = VInt 1) l \<and> list_all (\<lambda>a. \<exists>s. a = VArr s) d"
proof -
  from assms obtain es where v: "v = VList es" "list_all labeled_sentence es"
    by (auto elim: labeled_dataset.elims)
  from traverse_labeled [OF v(2)] v(1) show ?thesis
    by (auto simp: comprehension_def)
qed

text \<open>
  C5. When \<open>train\<close> and \<open>test\<close> are labeled datasets, the four projections of cell 5
  yield, element by element, the sentence arrays (\<open>element[0]\<close>) and the labels
  (\<open>element[1]\<close>): every element of the datasets is the pair of its data and its label,
  every label is 0 or 1, and every data item is an array.
\<close>

theorem projections_labeled:
  assumes "vars k V_train = Some tr" and "vars k V_test = Some te"
    and "labeled_dataset tr" and "labeled_dataset te" and "cell5 w k = (r, k')"
  shows "\<exists>d l d' l'.
           vars k' V_train_data = Some (VList d) \<and> vars k' V_train_labels = Some (VList l) \<and>
           vars k' V_test_data = Some (VList d') \<and> vars k' V_test_labels = Some (VList l') \<and>
           tr = VList (map (\<lambda>(a, b). VTuple [a, b]) (zip d l)) \<and> length d = length l \<and>
           te = VList (map (\<lambda>(a, b). VTuple [a, b]) (zip d' l')) \<and> length d' = length l' \<and>
           list_all (\<lambda>b. b = VInt 0 \<or> b = VInt 1) (l @ l') \<and>
           list_all (\<lambda>a. \<exists>s. a = VArr s) (d @ d')"
proof -
  from projections_of_labeled [OF assms(3)] obtain d l where 1:
    "comprehension (\<lambda>element. py_index element 0) tr = Inr (VList d)"
    "comprehension (\<lambda>element. py_index element 1) tr = Inr (VList l)"
    "tr = VList (map (\<lambda>(a, b). VTuple [a, b]) (zip d l))" "length d = length l"
    "list_all (\<lambda>b. b = VInt 0 \<or> b = VInt 1) l" "list_all (\<lambda>a. \<exists>s. a = VArr s) d"
    by blast
  from projections_of_labeled [OF assms(4)] obtain d' l' where 2:
    "comprehension (\<lambda>element. py_index element 0) te = Inr (VList d')"
    "comprehension (\<lambda>element. py_index element 1) te = Inr (VList l')"
    "te = VList (map (\<lambda>(a, b). VTuple [a, b]) (zip d' l'))" "length d' = length l'"
    "list_all (\<lambda>b. b = VInt 0 \<or> b = VInt 1) l'" "list_all (\<lambda>a. \<exists>s. a = VArr s) d'"
    by blast
  define k1 where "k1 = k\<lparr>vars := (vars k)(V_train_data \<mapsto> VList d)\<rparr>"
  define k2 where "k2 = k1\<lparr>vars := (vars k1)(V_train_labels \<mapsto> VList l)\<rparr>"
  define k3 where "k3 = k2\<lparr>vars := (vars k2)(V_test_data \<mapsto> VList d')\<rparr>"
  define k4 where "k4 = k3\<lparr>vars := (vars k3)(V_test_labels \<mapsto> VList l')\<rparr>"
  have s1: "assign V_train_data
        (bind (name V_train) (\<lambda>v. pure (comprehension (\<lambda>element. py_index element 0) v))) k = (None, k1)"
    by (simp add: assign_pure assms(1) 1(1) k1_def)
  have s2: "assign V_train_labels
        (bind (name V_train) (\<lambda>v. pure (comprehension (\<lambda>element. py_index element 1) v))) k1 = (None, k2)"
    by (simp add: assign_pure assms(1) 1(2) k1_def k2_def)
  have s3: "assign V_test_data
        (bind (name V_test) (\<lambda>v. pure (comprehension (\<lambda>element. py_index element 0) v))) k2 = (None, k3)"
    by (simp add: assign_pure assms(2) 2(1) k1_def k2_def k3_def)
  have s4: "assign V_test_labels
        (bind (name V_test) (\<lambda>v. pure (comprehension (\<lambda>element. py_index element 1) v))) k3 = (None, k4)"
    by (simp add: assign_pure assms(2) 2(2) k1_def k2_def k3_def k4_def)
  have "cell5 w k = try_finally (cell5_try w) (rmtree ''/tmp/data'') k4"
    unfolding cell5_def
    apply (subst block_go, rule s1)
    apply (subst block_go, rule s2)
    apply (subst block_go, rule s3)
    apply (subst block_go, rule s4)
    apply (rule block_single)
    done
  with assms(5) have "try_finally (cell5_try w) (rmtree ''/tmp/data'') k4 = (r, k')" by simp
  then obtain kb where kb: "try_step k4 kb"
    "k' = log (Rmtree ''/tmp/data'') (Inr VNone)
            (kb\<lparr>files := filter (\<lambda>q. \<not> under ''/tmp/data'' q) (files kb)\<rparr>)"
    by (rule cell5_finally)
  from kb(2) have v: "vars k' = vars kb" by (simp add: log_def)
  from kb(1) have fr: "vars kb V_train_data = vars k4 V_train_data"
    "vars kb V_train_labels = vars k4 V_train_labels"
    "vars kb V_test_data = vars k4 V_test_data" "vars kb V_test_labels = vars k4 V_test_labels"
    unfolding try_step_def by auto
  have "vars k' V_train_data = Some (VList d)" "vars k' V_train_labels = Some (VList l)"
    "vars k' V_test_data = Some (VList d')" "vars k' V_test_labels = Some (VList l')"
    unfolding v fr by (simp_all add: k1_def k2_def k3_def k4_def)
  with 1 2 show ?thesis by auto
qed

lemma cell5_happy:
  assumes "cell5 happy ready = (r, k')"
  shows "vars k' V_train_labels = Some (VList [VInt 1, VInt 0]) \<and>
         vars k' V_train_data = Some (VList [VArr [4, 5], VArr [6]]) \<and>
         vars k' V_test_labels = Some (VList [VInt 0]) \<and>
         vars k' V_test_data = Some (VList [VArr [5]])"
  using assms by (clarsimp simp: run_defs happy_def ready_def)

text \<open>C5 on the two datasets of the kernel \<open>ready\<close>.\<close>

theorem projections_labeled_witness:
  "labeled_dataset (VList [VTuple [VArr [4, 5], VInt 1], VTuple [VArr [6], VInt 0]]) \<and>
   labeled_dataset (VList [VTuple [VArr [5], VInt 0]]) \<and>
   vars (snd (cell5 happy ready)) V_train_labels = Some (VList [VInt 1, VInt 0]) \<and>
   vars (snd (cell5 happy ready)) V_test_labels = Some (VList [VInt 0]) \<and>
   list_all (\<lambda>b. b = VInt 0 \<or> b = VInt 1) ([VInt 1, VInt 0] @ [VInt 0])"
proof -
  obtain r k' where run: "cell5 happy ready = (r, k')" by (cases "cell5 happy ready")
  have tr: "vars ready V_train = Some (VList [VTuple [VArr [4, 5], VInt 1], VTuple [VArr [6], VInt 0]])"
    and te: "vars ready V_test = Some (VList [VTuple [VArr [5], VInt 0]])"
    by (simp_all add: ready_def)
  have ltr: "labeled_dataset (VList [VTuple [VArr [4, 5], VInt 1], VTuple [VArr [6], VInt 0]])"
    and lte: "labeled_dataset (VList [VTuple [VArr [5], VInt 0]])"
    by simp_all
  from projections_labeled [OF tr te ltr lte run] cell5_happy [OF run] ltr lte
  show ?thesis using run by (elim exE conjE) simp
qed

section \<open>The training cell\<close>

text \<open>The two statements of cell 9, one by one.\<close>

lemma chainer_step:
  assumes "assign V_chainer_estimator
        (bind (name V_role) (\<lambda>r.
         bind (name V_sagemaker_session) (\<lambda>s.
         invoke w (Chainer ''sentiment_analysis.py'' ''src'' r s)))) k = (r, k1)"
  shows "(r \<noteq> None \<and> (trace k1 = trace k \<or>
            (\<exists>role s e. trace k1 = trace k @ [(Chainer ''sentiment_analysis.py'' ''src'' role s, Inl e)]))) \<or>
         (\<exists>role s est. vars k V_role = Some role \<and> vars k V_sagemaker_session = Some s \<and> r = None \<and>
            trace k1 = trace k @ [(Chainer ''sentiment_analysis.py'' ''src'' role s, Inr est)] \<and>
            vars k1 = (vars k)(V_chainer_estimator \<mapsto> est))"
proof (cases "vars k V_role")
  case None
  with assms show ?thesis by (auto simp: assign_def bind_def name_def)
next
  case role: (Some role)
  show ?thesis
  proof (cases "vars k V_sagemaker_session")
    case None
    with role assms show ?thesis by (auto simp: assign_def bind_def name_def)
  next
    case (Some s)
    show ?thesis
    proof (cases "sdk w (length (trace k)) (Chainer ''sentiment_analysis.py'' ''src'' role s)")
      case (Inl e)
      with role Some assms show ?thesis
        by (auto simp: assign_def bind_def name_def invoke_def log_def Let_def)
    next
      case (Inr est)
      with role Some assms show ?thesis
        by (auto simp: assign_def bind_def name_def invoke_def log_def Let_def)
    qed
  qed
qed

lemma fit_step:
  assumes "expr_stmt
        (bind (name V_chainer_estimator) (\<lambda>est.
         bind (name V_train_input) (\<lambda>a.
         bind (name V_test_input) (\<lambda>b.
         bind (name V_vocab_input) (\<lambda>c.
         invoke w (Fit est [(''train'', a), (''test'', b), (''vocab'', c)])))))) k = (r, k1)"
  shows "trace k1 = trace k \<or>
         (\<exists>est x y z a. vars k V_chainer_estimator = Some est \<and> vars k V_train_input = Some x \<and>
            vars k V_test_input = Some y \<and> vars k V_vocab_input = Some z \<and>
            trace k1 = trace k @ [(Fit est [(''train'', x), (''test'', y), (''vocab'', z)], a)])"
proof (cases "\<exists>est x y z. vars k V_chainer_estimator = Some est \<and> vars k V_train_input = Some x \<and>
            vars k V_test_input = Some y \<and> vars k V_vocab_input = Some z")
  case True
  then obtain est x y z where v: "vars k V_chainer_estimator = Some est" "vars k V_train_input = Some x"
    "vars k V_test_input = Some y" "vars k V_vocab_input = Some z"
    by blast
  with assms have "trace k1 =
      trace k @ [(Fit est [(''train'', x), (''test'', y), (''vocab'', z)],
                  sdk w (length (trace k)) (Fit est [(''train'', x), (''test'', y), (''vocab'', z)]))]"
    by (auto simp: expr_stmt_def bind_def name_def invoke_def log_def Let_def split: sum.splits)
  with v show ?thesis by blast
next
  case False
  with assms have "trace k1 = trace k"
    by (auto simp: expr_stmt_def bind_def name_def split: option.splits)
  then show ?thesis by simp
qed

lemma cell9_fit:
  assumes "cell9 w k = (r, k')" and "trace k' = trace k @ t" and "(Fit est chans, a) \<in> set t"
  shows "\<exists>role s x y z. vars k V_role = Some role \<and> vars k V_sagemaker_session = Some s \<and>
           vars k V_train_input = Some x \<and> vars k V_test_input = Some y \<and> vars k V_vocab_input = Some z \<and>
           t = [(Chainer ''sentiment_analysis.py'' ''src'' role s, Inr est),
                (Fit est [(''train'', x), (''test'', y), (''vocab'', z)], a)]"
  using assms(1) unfolding cell9_def
proof (cases rule: block_ConsE)
  case (stop e)
  from chainer_step [OF stop(1)] stop(2) assms(2,3) show ?thesis by auto
next
  case (go k1)
  from chainer_step [OF go(1)] obtain role s est1 where c: "vars k V_role = Some role"
    "vars k V_sagemaker_session = Some s"
    "trace k1 = trace k @ [(Chainer ''sentiment_analysis.py'' ''src'' role s, Inr est1)]"
    "vars k1 = (vars k)(V_chainer_estimator \<mapsto> est1)"
    by auto
  from go(2) have "expr_stmt
        (bind (name V_chainer_estimator) (\<lambda>est.
         bind (name V_train_input) (\<lambda>a.
         bind (name V_test_input) (\<lambda>b.
         bind (name V_vocab_input) (\<lambda>c.
         invoke w (Fit est [(''train'', a), (''test'', b), (''vocab'', c)])))))) k1 = (r, k')"
    by (simp only: block_single)
  from fit_step [OF this] c assms(2,3) show ?thesis by auto
qed

lemma channel_vars:
  "channel_var ''train'' = ''SM_CHANNEL_TRAIN''" "channel_var ''test'' = ''SM_CHANNEL_TEST''"
  "channel_var ''vocab'' = ''SM_CHANNEL_VOCAB''"
  by (simp_all add: channel_var_def to_upper_def)

text \<open>
  C7. When cell 9 calls \<open>fit\<close>, the channels it passes are named \<open>train\<close>, \<open>test\<close>
  and \<open>vocab\<close>; the variables that the container sets for them are
  \<open>SM_CHANNEL_TRAIN\<close>, \<open>SM_CHANNEL_TEST\<close> and \<open>SM_CHANNEL_VOCAB\<close>, each bound to the
  directory of its channel; and these are the variables that the defaults of the
  training script read, so that \<open>--train\<close>, \<open>--test\<close> and \<open>--vocab\<close> default to the
  three directories (given the two other variables the script reads).
\<close>

theorem channels_reach_script:
  assumes "cell9 w k = (r, k')" and "trace k' = trace k @ t" and "(Fit est chans, a) \<in> set t"
    and "base ''SM_OUTPUT_DATA_DIR'' = Some od" and "base ''SM_MODEL_DIR'' = Some md"
  shows "map fst chans = [''train'', ''test'', ''vocab''] \<and>
         map channel_var (map fst chans) = [''SM_CHANNEL_TRAIN'', ''SM_CHANNEL_TEST'', ''SM_CHANNEL_VOCAB''] \<and>
         list_all (\<lambda>c. container_environ base dir (map fst chans) (channel_var c) = Some (dir c))
           (map fst chans) \<and>
         script_defaults (container_environ base dir (map fst chans)) =
           Inr \<lparr>output_data_dir = od, model_dir = md,
                train = dir ''train'', test = dir ''test'', vocab = dir ''vocab''\<rparr>"
proof -
  from cell9_fit [OF assms(1-3)] assms(3) have ch: "map fst chans = [''train'', ''test'', ''vocab'']"
    by auto
  have env: "container_environ base dir [''train'', ''test'', ''vocab''] =
      base(''SM_CHANNEL_TRAIN'' \<mapsto> dir ''train'', ''SM_CHANNEL_TEST'' \<mapsto> dir ''test'',
           ''SM_CHANNEL_VOCAB'' \<mapsto> dir ''vocab'')"
    by (simp add: container_environ_def channel_vars map_add_def fun_eq_iff)
  show ?thesis
    unfolding ch env
    by (simp add: channel_vars script_defaults_def os_environ_def assms(4,5))
qed

text \<open>Cell 9 in the world \<open>happy\<close>, evaluated.\<close>

lemma cell9_happy:
  assumes "cell9 happy ready = (r, k')"
  shows "trace k' =
           [(Chainer ''sentiment_analysis.py'' ''src'' (VStr ''role'') (VObj ''session''),
             Inr (VObj ''estimator'')),
            (Fit (VObj ''estimator'')
               [(''train'', VStr ''s3://bucket/notebook/chainer_sentiment/train''),
                (''test'', VStr ''s3://bucket/notebook/chainer_sentiment/test''),
                (''vocab'', VStr ''s3://bucket/notebook/chainer_sentiment/vocab'')],
             Inr VNone)]"
  using assms by (clarsimp simp: cell_defs happy_def ready_def)

text \<open>C7 for the call of \<open>fit\<close> in the world \<open>happy\<close>.\<close>

theorem channels_reach_script_witness:
  "script_defaults
     (container_environ sagemaker_base channel_dir [''train'', ''test'', ''vocab'']) =
     Inr \<lparr>output_data_dir = ''/opt/ml/output/data'', model_dir = ''/opt/ml/model'',
          train = ''/opt/ml/input/data/train'', test = ''/opt/ml/input/data/test'',
          vocab = ''/opt/ml/input/data/vocab''\<rparr> \<and>
   map fst (trace (snd (cell9 happy ready))) ! 1 =
     Fit (VObj ''estimator'')
       [(''train'', VStr ''s3://bucket/notebook/chainer_sentiment/train''),
        (''test'', VStr ''s3://bucket/notebook/chainer_sentiment/test''),
        (''vocab'', VStr ''s3://bucket/notebook/chainer_sentiment/vocab'')]"
proof -
  obtain r k' where run: "cell9 happy ready = (r, k')" by (cases "cell9 happy ready")
  note tr = cell9_happy [OF run]
  have t: "trace k' = trace ready @ trace k'" by (simp add: ready_def)
  have m: "(Fit (VObj ''estimator'')
               [(''train'', VStr ''s3://bucket/notebook/chainer_sentiment/train''),
                (''test'', VStr ''s3://bucket/notebook/chainer_sentiment/test''),
                (''vocab'', VStr ''s3://bucket/notebook/chainer_sentiment/vocab'')],
             Inr VNone) \<in> set (trace k')"
    by (simp add: tr)
  have b: "sagemaker_base ''SM_OUTPUT_DATA_DIR'' = Some ''/opt/ml/output/data''"
    "sagemaker_base ''SM_MODEL_DIR'' = Some ''/opt/ml/model''"
    by (simp_all add: sagemaker_base_def)
  from channels_reach_script [OF run t m b, of channel_dir] show ?thesis
    using run by (simp add: tr channel_dir_def)
qed

section \<open>The test-set prediction cell\<close>





lemma traverse_strip:
  "traverse (\<lambda>sentence. case py_tail sentence of Inl e \<Rightarrow> Inl e | Inr t \<Rightarrow> py_strip t) (map VStr ls) =
     Inr (map (\<lambda>l. VStr (strip (drop 1 l))) ls)"
  by (induction ls) simp_all

lemma comprehension_strip:
  "comprehension (\<lambda>sentence. case py_tail sentence of Inl e \<Rightarrow> Inl e | Inr t \<Rightarrow> py_strip t)
     (VList (map VStr ls)) = Inr (VList (map (\<lambda>l. VStr (strip (drop 1 l))) ls))"
  by (simp add: comprehension_def traverse_strip)

text \<open>The three kinds of statement of cell 19, one by one.\<close>

lemma open_step:
  assumes "assign x (bind (bind (name y) (\<lambda>fp. pure (g fp))) (open_read w)) k = (r, k1)"
  shows "out k1 = out k \<and>
     ((r \<noteq> None \<and> trace k1 = trace k) \<or>
      (\<exists>fp path e. vars k y = Some fp \<and> g fp = Inr path \<and> r = Some e \<and>
         trace k1 = trace k @ [(Open path, Inl e)]) \<or>
      (\<exists>fp path txt. vars k y = Some fp \<and> g fp = Inr path \<and> r = None \<and>
         file_text w (length (trace k)) path = Inr txt \<and>
         trace k1 = trace k @ [(Open path, Inr (VStr txt))] \<and>
         vars k1 = (vars k)(x \<mapsto> VFile (splitlines txt))))"
proof (cases "vars k y")
  case None
  with assms show ?thesis by (auto simp: assign_def bind_def name_def)
next
  case (Some fp)
  show ?thesis
  proof (cases "g fp")
    case (Inl e)
    with Some assms show ?thesis by (auto simp: assign_def bind_def name_def pure_def)
  next
    case (Inr path)
    show ?thesis
    proof (cases "file_text w (length (trace k)) path")
      case (Inl e)
      with Some Inr assms show ?thesis
        by (auto simp: assign_def bind_def name_def pure_def open_read_def log_def Let_def)
    next
      case r2: (Inr tx)
      with Some Inr assms show ?thesis
        by (auto simp: assign_def bind_def name_def pure_def open_read_def log_def Let_def)
    qed
  qed
qed

lemma readlines_step:
  assumes "assign x (readlines_of y h) k = (r, k1)" and "vars k y = Some (VFile ls)"
  shows "r = None \<and> out k1 = out k \<and> trace k1 = trace k \<and>
         vars k1 = (vars k)(y \<mapsto> VFile (drop (length (readlines h ls)) ls),
                            x \<mapsto> VList (map VStr (readlines h ls)))"
  using assms by (auto simp: assign_def readlines_of_def Let_def)

lemma predict_step:
  assumes "assign V_predictions (predict w) k = (r, k1)"
  shows "out k1 = out k \<and>
     ((r \<noteq> None \<and> trace k1 = trace k) \<or>
      (\<exists>p ss e. vars k V_predictor = Some p \<and> vars k V_sentences = Some ss \<and> r = Some e \<and>
         trace k1 = trace k @ [(Predict p ss, Inl e)]) \<or>
      (\<exists>p ss v. vars k V_predictor = Some p \<and> vars k V_sentences = Some ss \<and> r = None \<and>
         sdk w (length (trace k)) (Predict p ss) = Inr v \<and>
         trace k1 = trace k @ [(Predict p ss, Inr v)] \<and>
         vars k1 = (vars k)(V_predictions \<mapsto> v)))"
proof (cases "vars k V_predictor")
  case None
  with assms show ?thesis by (auto simp: assign_def predict_def bind_def name_def)
next
  case p: (Some p)
  show ?thesis
  proof (cases "vars k V_sentences")
    case None
    with p assms show ?thesis by (auto simp: assign_def predict_def bind_def name_def)
  next
    case (Some ss)
    show ?thesis
    proof (cases "sdk w (length (trace k)) (Predict p ss)")
      case (Inl e)
      with p Some assms show ?thesis
        by (auto simp: assign_def predict_def bind_def name_def invoke_def log_def Let_def)
    next
      case (Inr v)
      with p Some assms show ?thesis
        by (auto simp: assign_def predict_def bind_def name_def invoke_def log_def Let_def)
    qed
  qed
qed

lemma print_prediction_step:
  assumes "print_prediction k = (r, k1)" and "vars k V_prediction = Some row"
  shows "vars k1 V_predictions = vars k V_predictions \<and>
         (r = None \<longrightarrow> (\<exists>a b c. py_unpack3 row = Inr (a, b, c) \<and> out k1 = out k @ [Print_prediction a b c]))"
proof (cases "py_unpack3 row")
  case (Inl e)
  with assms show ?thesis
    by (auto simp: print_prediction_def assign3_def name_def)
next
  case (Inr abc)
  obtain a b c where "abc = (a, b, c)" by (cases abc)
  with Inr assms show ?thesis
    by (auto simp: print_prediction_def assign3_def name_def)
qed

lemma for_each_render:
  assumes "for_each V_prediction rows print_prediction k = (None, k1)"
  shows "\<exists>ts. traverse py_unpack3 rows = Inr ts \<and>
              out k1 = out k @ map (\<lambda>(a, b, c). Print_prediction a b c) ts \<and>
              vars k1 V_predictions = vars k V_predictions"
  using assms
proof (induction rows arbitrary: k)
  case Nil
  then show ?case by simp
next
  case (Cons row rows)
  define k0 where "k0 = k\<lparr>vars := (vars k)(V_prediction \<mapsto> row)\<rparr>"
  obtain r2 k2 where b: "print_prediction k0 = (r2, k2)" by (cases "print_prediction k0")
  with Cons.prems have r2: "r2 = None" and rest: "for_each V_prediction rows print_prediction k2 = (None, k1)"
    by (auto simp: k0_def split: option.splits)
  have "vars k0 V_prediction = Some row" by (simp add: k0_def)
  from print_prediction_step [OF b this] r2 obtain a b c where
    u: "py_unpack3 row = Inr (a, b, c)" "out k2 = out k0 @ [Print_prediction a b c]"
    "vars k2 V_predictions = vars k0 V_predictions"
    by auto
  from Cons.IH [OF rest] obtain ts where ts: "traverse py_unpack3 rows = Inr ts"
    "out k1 = out k2 @ map (\<lambda>(a, b, c). Print_prediction a b c) ts"
    "vars k1 V_predictions = vars k2 V_predictions"
    by blast
  have "traverse py_unpack3 (row # rows) = Inr ((a, b, c) # ts)" using u(1) ts(1) by simp
  moreover have "out k1 = out k @ map (\<lambda>(a, b, c). Print_prediction a b c) ((a, b, c) # ts)"
    using u(2) ts(2) by (simp add: k0_def)
  moreover have "vars k1 V_predictions = vars k V_predictions"
    using u(3) ts(3) by (simp add: k0_def)
  ultimately show ?case by blast
qed

lemma print_predictions_trace: "print_predictions k = (r, k1) \<Longrightarrow> trace k1 = trace k"
  using emitsD [OF emits_print_predictions [of "{}"], of k r k1]
  by (cases r) (auto simp: follows_None fns_def elim!: follows_SomeE)

lemma print_predictions_render:
  assumes "print_predictions k = (None, k1)" and "vars k V_predictions = Some v"
  shows "\<exists>ps. render v = Inr ps \<and> out k1 = out k @ ps \<and> vars k1 V_predictions = Some v"
proof (cases "py_iter v")
  case (Inl e)
  with assms show ?thesis by (simp add: print_predictions_def for_in_def name_def)
next
  case (Inr rows)
  with assms have "for_each V_prediction rows print_prediction k = (None, k1)"
    by (simp add: print_predictions_def for_in_def name_def)
  from for_each_render [OF this] Inr assms(2) show ?thesis by (auto simp: render_def)
qed

text \<open>The \<open>with\<close> statement of cell 19.\<close>

lemma with_block:
  assumes "with_open w (bind (name V_file_paths) (\<lambda>fp. pure (py_index fp 1))) V_f
        (block
          [assign V_sentences (readlines_of V_f 2000),
           assign V_sentences
             (bind (name V_sentences) (\<lambda>v.
              pure (comprehension
                      (\<lambda>sentence. case py_tail sentence of Inl e \<Rightarrow> Inl e | Inr t \<Rightarrow> py_strip t) v))),
           assign V_predictions (predict w)]) k = (r, k1)"
  shows "out k1 = out k \<and>
    ((r \<noteq> None \<and> (trace k1 = trace k \<or> (\<exists>path e. trace k1 = trace k @ [(Open path, Inl e)]))) \<or>
     (\<exists>path tx. file_text w (length (trace k)) path = Inr tx \<and>
        ((r \<noteq> None \<and> trace k1 = trace k @ [(Open path, Inr (VStr tx))]) \<or>
         (\<exists>p e. r = Some e \<and>
            trace k1 = trace k @ [(Open path, Inr (VStr tx)), (Predict p (test_sentences tx), Inl e)]) \<or>
         (\<exists>p v. r = None \<and>
            sdk w (Suc (length (trace k))) (Predict p (test_sentences tx)) = Inr v \<and>
            trace k1 = trace k @ [(Open path, Inr (VStr tx)), (Predict p (test_sentences tx), Inr v)] \<and>
            vars k1 V_predictor = Some p \<and> vars k1 V_sentences = Some (test_sentences tx) \<and>
            vars k1 V_predictions = Some v))))"
  using assms unfolding with_open_def
proof (cases rule: block_ConsE)
  case (stop e)
  from open_step [OF stop(1)] stop(2) show ?thesis by auto
next
  case (go kA)
  from open_step [OF go(1)] obtain path tx where o: "out kA = out k"
    "file_text w (length (trace k)) path = Inr tx"
    "trace kA = trace k @ [(Open path, Inr (VStr tx))]"
    "vars kA = (vars k)(V_f \<mapsto> VFile (splitlines tx))"
    by auto
  obtain rB kB where B: "assign V_sentences (readlines_of V_f 2000) kA = (rB, kB)"
    by (cases "assign V_sentences (readlines_of V_f 2000) kA")
  have "vars kA V_f = Some (VFile (splitlines tx))" by (simp add: o(4))
  from readlines_step [OF B this] have rB: "rB = None" and kB: "out kB = out kA" "trace kB = trace kA"
    "vars kB V_sentences = Some (VList (map VStr (readlines 2000 (splitlines tx))))"
    "vars kB V_predictor = vars kA V_predictor"
    by simp_all
  define kC where "kC = kB\<lparr>vars := (vars kB)(V_sentences \<mapsto> test_sentences tx)\<rparr>"
  have C: "assign V_sentences
             (bind (name V_sentences) (\<lambda>v.
              pure (comprehension
                      (\<lambda>sentence. case py_tail sentence of Inl e \<Rightarrow> Inl e | Inr t \<Rightarrow> py_strip t) v))) kB
           = (None, kC)"
    by (simp add: assign_pure kB(3) comprehension_strip kC_def test_sentences_def)
  have "block
          [assign V_sentences (readlines_of V_f 2000),
           assign V_sentences
             (bind (name V_sentences) (\<lambda>v.
              pure (comprehension
                      (\<lambda>sentence. case py_tail sentence of Inl e \<Rightarrow> Inl e | Inr t \<Rightarrow> py_strip t) v))),
           assign V_predictions (predict w)] kA = assign V_predictions (predict w) kC"
    apply (subst block_go, rule B [unfolded rB])
    apply (subst block_go, rule C)
    apply (rule block_single)
    done
  with go(2) have D: "assign V_predictions (predict w) kC = (r, k1)"
    by (simp only: block_single)
  have kC: "out kC = out k" "trace kC = trace k @ [(Open path, Inr (VStr tx))]"
    "vars kC V_sentences = Some (test_sentences tx)"
    using kB o by (simp_all add: kC_def)
  from predict_step [OF D] kC o(2) show ?thesis by auto
qed

text \<open>
  Every run of cell 19: either the file could not be opened, or it was opened and every
  call after that is a prediction request for the sentences computed from its text; a
  run that completes made two of them and printed what the second one answered.
\<close>

lemma cell19_shape:
  assumes "cell19 w k = (r, k')"
  shows "(r \<noteq> None \<and> (\<exists>t. trace k' = trace k @ t \<and> list_all (\<lambda>e. fn_of (fst e) = OPEN) t)) \<or>
    (\<exists>path tx p t. file_text w (length (trace k)) path = Inr tx \<and>
        trace k' = trace k @ (Open path, Inr (VStr tx)) # t \<and>
        list_all (\<lambda>e. fst e = Predict p (test_sentences tx)) t \<and>
        (r = None \<longrightarrow>
           (\<exists>v1 v2 ps.
              t = [(Predict p (test_sentences tx), Inr v1), (Predict p (test_sentences tx), Inr v2)] \<and>
              sdk w (Suc (length (trace k))) (Predict p (test_sentences tx)) = Inr v1 \<and>
              sdk w (Suc (Suc (length (trace k)))) (Predict p (test_sentences tx)) = Inr v2 \<and>
              vars k' V_predictions = Some v2 \<and> render v2 = Inr ps \<and> out k' = out k @ ps)))"
  using assms unfolding cell19_def
proof (cases rule: block_ConsE)
  case (stop e)
  from with_block [OF stop(1)] stop(2) show ?thesis
    apply (elim conjE disjE exE)
        apply (rule disjI1, simp)
       apply (rule disjI1, simp)
      apply (rule disjI2, rule_tac x = path in exI, rule_tac x = tx in exI, simp)
     apply (rule disjI2, rule_tac x = path in exI, rule_tac x = tx in exI, rule_tac x = p in exI, simp)
    apply simp
    done
next
  case (go kW)
  from with_block [OF go(1)] obtain path tx p v1 where W: "out kW = out k"
    "file_text w (length (trace k)) path = Inr tx"
    "sdk w (Suc (length (trace k))) (Predict p (test_sentences tx)) = Inr v1"
    "trace kW = trace k @ [(Open path, Inr (VStr tx)), (Predict p (test_sentences tx), Inr v1)]"
    "vars kW V_predictor = Some p" "vars kW V_sentences = Some (test_sentences tx)"
    by auto
  from go(2) show ?thesis
  proof (cases rule: block_ConsE)
    case (stop e)
    from predict_step [OF stop(1)] stop(2) W(5,6)
    have "trace k' = trace kW \<or> trace k' = trace kW @ [(Predict p (test_sentences tx), Inl e)]"
      by auto
    with W(2,4) stop(2) show ?thesis
      apply (elim disjE)
       apply (rule disjI2, rule_tac x = path in exI, rule_tac x = tx in exI, rule_tac x = p in exI, simp)
      apply (rule disjI2, rule_tac x = path in exI, rule_tac x = tx in exI, rule_tac x = p in exI, simp)
      done
  next
    case g2: (go kE)
    from predict_step [OF g2(1)] W(5,6) obtain v2 where E: "out kE = out kW"
      "sdk w (length (trace kW)) (Predict p (test_sentences tx)) = Inr v2"
      "trace kE = trace kW @ [(Predict p (test_sentences tx), Inr v2)]"
      "vars kE V_predictions = Some v2"
      by auto
    from g2(2) have F: "print_predictions kE = (r, k')" by (simp only: block_single)
    from print_predictions_trace [OF F] E(3) W(4)
    have t: "trace k' = trace k @ (Open path, Inr (VStr tx)) #
        [(Predict p (test_sentences tx), Inr v1), (Predict p (test_sentences tx), Inr v2)]"
      by simp
    have v2: "sdk w (Suc (Suc (length (trace k)))) (Predict p (test_sentences tx)) = Inr v2"
      using E(2) W(4) by simp
    have fin: "\<exists>ps. vars k' V_predictions = Some v2 \<and> render v2 = Inr ps \<and> out k' = out k @ ps"
      if "r = None"
      using print_predictions_render [OF F [unfolded that] E(4)] E(1) W(1) by auto
    show ?thesis
      apply (rule disjI2, rule_tac x = path in exI, rule_tac x = tx in exI, rule_tac x = p in exI)
      apply (rule exI, intro conjI, rule W(2), rule t, simp)
      apply (rule impI, drule fin, elim exE conjE)
      apply (rule_tac x = v1 in exI, rule_tac x = v2 in exI, rule_tac x = ps in exI)
      apply (simp add: W(3) v2)
      done
  qed
qed

text \<open>
  C9. A run of cell 19 that completes has made, after opening the file, two prediction
  requests with the same predictor and the same list of sentences, one after the other;
  \<open>predictions\<close> is bound to the answer of the second, and what the cell printed is
  the rendering of that second answer. It is the rendering of the first answer exactly
  when both answers render alike.
\<close>

theorem second_prediction_printed:
  assumes "cell19 w k = (None, k')"
  shows "\<exists>path tx p ss v1 v2 ps.
           trace k' = trace k @ [(Open path, Inr (VStr tx)), (Predict p ss, Inr v1), (Predict p ss, Inr v2)] \<and>
           sdk w (Suc (length (trace k))) (Predict p ss) = Inr v1 \<and>
           sdk w (Suc (Suc (length (trace k)))) (Predict p ss) = Inr v2 \<and>
           vars k' V_predictions = Some v2 \<and> render v2 = Inr ps \<and> out k' = out k @ ps \<and>
           (render v1 = Inr (drop (length (out k)) (out k')) \<longleftrightarrow> render v1 = render v2)"
proof -
  from cell19_shape [OF assms] obtain path tx p t v1 v2 ps where
    "trace k' = trace k @ (Open path, Inr (VStr tx)) # t"
    "t = [(Predict p (test_sentences tx), Inr v1), (Predict p (test_sentences tx), Inr v2)]"
    "sdk w (Suc (length (trace k))) (Predict p (test_sentences tx)) = Inr v1"
    "sdk w (Suc (Suc (length (trace k)))) (Predict p (test_sentences tx)) = Inr v2"
    "vars k' V_predictions = Some v2" "render v2 = Inr ps" "out k' = out k @ ps"
    by auto
  then show ?thesis
    apply (rule_tac x = path in exI, rule_tac x = tx in exI, rule_tac x = p in exI)
    apply (rule_tac x = "test_sentences tx" in exI)
    apply (rule_tac x = v1 in exI, rule_tac x = v2 in exI, rule_tac x = ps in exI)
    apply simp
    done
qed


text \<open>Cell 19 in the world \<open>happy\<close>, evaluated.\<close>

lemma cell19_happy:
  assumes "cell19 happy ready = (r, k')"
  shows "r = None \<and>
    trace k' =
      [(Open (VStr ''stsa.binary.test''), Inr (VStr ''1 good film\<newline>0 bad film\<newline>'')),
       (Predict (VObj ''predictor'') (VList [VStr ''good film'', VStr ''bad film'']),
        Inr (VList [VTuple [VStr ''good film'', VInt 1, VInt 1], VTuple [VStr ''bad film'', VInt 1, VInt 1]])),
       (Predict (VObj ''predictor'') (VList [VStr ''good film'', VStr ''bad film'']),
        Inr (VList [VTuple [VStr ''good film'', VInt 1, VInt 2], VTuple [VStr ''bad film'', VInt 1, VInt 2]]))]"
  using assms by (clarsimp simp: run_defs happy_def ready_def)

text \<open>C9 in the world \<open>happy\<close>, whose endpoint answers the second request differently.\<close>

theorem second_prediction_printed_witness:
  "fst (cell19 happy ready) = None \<and>
   render (VList [VTuple [VStr ''good film'', VInt 1, VInt 2], VTuple [VStr ''bad film'', VInt 1, VInt 2]]) =
     Inr (out (snd (cell19 happy ready))) \<and>
   render (VList [VTuple [VStr ''good film'', VInt 1, VInt 1], VTuple [VStr ''bad film'', VInt 1, VInt 1]]) \<noteq>
     Inr (out (snd (cell19 happy ready)))"
proof -
  obtain r k' where run: "cell19 happy ready = (r, k')" by (cases "cell19 happy ready")
  note ev = cell19_happy [OF run]
  from ev run have run': "cell19 happy ready = (None, k')" by simp
  from second_prediction_printed [OF run'] obtain v2 ps where
    "\<exists>path tx p ss v1. trace k' = trace ready @
        [(Open path, Inr (VStr tx)), (Predict p ss, Inr v1), (Predict p ss, Inr v2)]"
    "render v2 = Inr ps" "out k' = out ready @ ps"
    by blast
  with ev have "render (VList [VTuple [VStr ''good film'', VInt 1, VInt 2],
      VTuple [VStr ''bad film'', VInt 1, VInt 2]]) = Inr (out k')"
    by (auto simp: ready_def)
  moreover have "render (VList [VTuple [VStr ''good film'', VInt 1, VInt 1],
      VTuple [VStr ''bad film'', VInt 1, VInt 1]]) \<noteq>
    render (VList [VTuple [VStr ''good film'', VInt 1, VInt 2], VTuple [VStr ''bad film'', VInt 1, VInt 2]])"
    by (simp add: render_def py_unpack3_def)
  ultimately show ?thesis using run' by simp
qed

text \<open>Cell 19 in the world \<open>long_file\<close>: two of the three lines are read.\<close>

lemma splitlines_line:
  "CHR 0x0A \<notin> set l \<Longrightarrow> splitlines (l @ CHR 0x0A # rest) = (l @ [CHR 0x0A]) # splitlines rest"
  by (induction l) auto

lemma splitlines_long_text:
  "splitlines long_text = [long_line @ [CHR 0x0A], long_line @ [CHR 0x0A], long_line @ [CHR 0x0A]]"
proof -
  have nl: "CHR 0x0A \<notin> set long_line" by (simp add: long_line_def)
  show ?thesis unfolding long_text_def by (simp add: splitlines_line [OF nl])
qed

lemma length_long_line: "length (long_line @ [CHR 0x0A]) = 1500"
  by (simp add: long_line_def)

lemma readlines_long_lines:
  "readlines 2000 [long_line @ [CHR 0x0A], long_line @ [CHR 0x0A], long_line @ [CHR 0x0A]] =
     [long_line @ [CHR 0x0A], long_line @ [CHR 0x0A]]"
  unfolding readlines_def by (simp add: length_long_line del: length_append)

lemma readlines_long_text:
  "readlines 2000 (splitlines long_text) = [long_line @ [CHR 0x0A], long_line @ [CHR 0x0A]]"
  unfolding splitlines_long_text by (rule readlines_long_lines)



section \<open>From the upload to the training job\<close>

text \<open>The statements of the \<open>try\<close> block of cell 5 when they complete.\<close>

lemma makedirs_None:
  assumes "makedirs p k = (None, k1)"
  shows "\<not> path_exists (files k) p \<and> trace k1 = trace k @ [(Makedirs p, Inr VNone)] \<and>
         vars k1 = vars k \<and>
         files k1 = files k @ [a \<leftarrow> ancestors p. \<not> path_exists (files k) a] @ [p]"
  using assms by (auto simp: makedirs_def log_def split: if_splits)

lemma write_file_None:
  assumes "write_file w c p k = (None, k1)"
  shows "\<exists>v. trace k1 = trace k @ [(c, Inr v)] \<and> vars k1 = vars k \<and> files k1 = files k @ [p]"
  using assms by (auto simp: write_file_def invoke_def log_def Let_def split: sum.splits)

lemma savez_None:
  assumes "savez w p a x b y k = (None, k1)"
  shows "\<exists>u v r. vars k x = Some u \<and> vars k y = Some v \<and>
           trace k1 = trace k @ [(Savez p [(a, u), (b, v)], Inr r)] \<and> vars k1 = vars k \<and>
           files k1 = files k @ [with_ext ''.npz'' p]"
proof (cases "\<exists>u v. vars k x = Some u \<and> vars k y = Some v")
  case True
  then obtain u v where uv: "vars k x = Some u" "vars k y = Some v" by blast
  with assms have "write_file w (Savez p [(a, u), (b, v)]) (with_ext ''.npz'' p) k = (None, k1)"
    by (simp add: savez_def name_def)
  from write_file_None [OF this] uv show ?thesis by blast
next
  case False
  with assms show ?thesis by (auto simp: savez_def name_def split: option.splits)
qed

lemma save_None:
  assumes "save w p x k = (None, k1)"
  shows "\<exists>u r. vars k x = Some u \<and> trace k1 = trace k @ [(Save p u, Inr r)] \<and> vars k1 = vars k \<and>
           files k1 = files k @ [with_ext ''.npy'' p]"
proof (cases "vars k x")
  case (Some u)
  with assms have "write_file w (Save p u) (with_ext ''.npy'' p) k = (None, k1)"
    by (simp add: save_def name_def)
  from write_file_None [OF this] Some show ?thesis by blast
next
  case None
  with assms show ?thesis by (auto simp: save_def name_def)
qed

lemma upload_None:
  assumes "assign x (upload_data w s p kp) k = (None, k1)"
  shows "\<exists>sv r. vars k s = Some sv \<and>
           trace k1 = trace k @ [(Upload_data sv p kp (filter (\<lambda>q. under p q \<and> q \<noteq> p) (files k)), Inr r)] \<and>
           vars k1 = (vars k)(x \<mapsto> r) \<and> files k1 = files k"
proof (cases "vars k s")
  case None
  with assms show ?thesis by (auto simp: assign_def upload_data_def bind_def name_def)
next
  case (Some sv)
  with assms show ?thesis
    by (auto simp: assign_def upload_data_def bind_def name_def invoke_def log_def Let_def
          split: sum.splits)
qed

lemma block_Cons_None:
  assumes "block (c # cs) k = (None, k')"
  obtains k1 where "c k = (None, k1)" "block cs k1 = (None, k')"
  using assms by (cases rule: block_ConsE) simp_all

lemma block_Nil_None: "block [] k = (r, k') \<Longrightarrow> k' = k"
  by simp

text \<open>What is below a directory when nothing was below it before it was made.\<close>

lemma filter_not_exists: "\<not> path_exists fs p \<Longrightarrow> filter (\<lambda>q. under p q \<and> q \<noteq> p) fs = []"
  by (auto simp: path_exists_def list_ex_iff filter_empty_conv)

lemma filter_parents:
  assumes "set A \<subseteq> {''/tmp'', ''/tmp/data''}" and "prefix ''/tmp/data/'' p"
  shows "filter (\<lambda>q. under p q \<and> q \<noteq> p) A = []"
proof -
  have "\<not> under p ''/tmp''" "\<not> under p ''/tmp/data''"
    using assms(2) by (auto simp: under_def prefix_def)
  with assms(1) show ?thesis by (auto simp: filter_empty_conv)
qed

lemma cell5_try_success:
  assumes "cell5_try w k = (None, k')"
  shows "\<exists>s td tl ted tel vo r1 r2 r3 a b c.
      vars k V_sagemaker_session = Some s \<and> vars k V_train_data = Some td \<and>
      vars k V_train_labels = Some tl \<and> vars k V_test_data = Some ted \<and>
      vars k V_test_labels = Some tel \<and> vars k V_vocab = Some vo \<and>
      trace k' = trace k @
        [(Makedirs ''/tmp/data/train_sentiment'', Inr VNone),
         (Makedirs ''/tmp/data/test_sentiment'', Inr VNone),
         (Makedirs ''/tmp/data/vocab'', Inr VNone),
         (Savez ''/tmp/data/train_sentiment/train.npz'' [(''data'', td), (''labels'', tl)], Inr r1),
         (Savez ''/tmp/data/test_sentiment/test.npz'' [(''data'', ted), (''labels'', tel)], Inr r2),
         (Save ''/tmp/data/vocab/vocab.npy'' vo, Inr r3),
         (Upload_data s ''/tmp/data/train_sentiment'' ''notebook/chainer_sentiment/train''
            [''/tmp/data/train_sentiment/train.npz''], Inr a),
         (Upload_data s ''/tmp/data/test_sentiment'' ''notebook/chainer_sentiment/test''
            [''/tmp/data/test_sentiment/test.npz''], Inr b),
         (Upload_data s ''/tmp/data/vocab'' ''notebook/chainer_sentiment/vocab''
            [''/tmp/data/vocab/vocab.npy''], Inr c)] \<and>
      vars k' = (vars k)(V_train_input \<mapsto> a, V_test_input \<mapsto> b, V_vocab_input \<mapsto> c)"
proof -
  from assms obtain k1 k2 k3 k4 k5 k6 k7 k8 k9 where
    m1: "makedirs ''/tmp/data/train_sentiment'' k = (None, k1)" and
    m2: "makedirs ''/tmp/data/test_sentiment'' k1 = (None, k2)" and
    m3: "makedirs ''/tmp/data/vocab'' k2 = (None, k3)" and
    s1: "savez w ''/tmp/data/train_sentiment/train.npz'' ''data'' V_train_data ''labels'' V_train_labels k3
          = (None, k4)" and
    s2: "savez w ''/tmp/data/test_sentiment/test.npz'' ''data'' V_test_data ''labels'' V_test_labels k4
          = (None, k5)" and
    s3: "save w ''/tmp/data/vocab/vocab.npy'' V_vocab k5 = (None, k6)" and
    u1: "assign V_train_input
          (upload_data w V_sagemaker_session (os_path_join ''/tmp'' [''data'', ''train_sentiment''])
             ''notebook/chainer_sentiment/train'') k6 = (None, k7)" and
    u2: "assign V_test_input
          (upload_data w V_sagemaker_session (os_path_join ''/tmp'' [''data'', ''test_sentiment''])
             ''notebook/chainer_sentiment/test'') k7 = (None, k8)" and
    u3: "assign V_vocab_input
          (upload_data w V_sagemaker_session (os_path_join ''/tmp'' [''data'', ''vocab''])
             ''notebook/chainer_sentiment/vocab'') k8 = (None, k9)" and
    e: "block [] k9 = (None, k')"
    unfolding cell5_try_def by (elim block_Cons_None)
  from e have k9: "k' = k9" by simp
  define A1 where "A1 = [a \<leftarrow> ancestors ''/tmp/data/train_sentiment''. \<not> path_exists (files k) a]"
  define F1 where "F1 = files k @ A1 @ [''/tmp/data/train_sentiment'']"
  define A2 where "A2 = [a \<leftarrow> ancestors ''/tmp/data/test_sentiment''. \<not> path_exists F1 a]"
  define F2 where "F2 = F1 @ A2 @ [''/tmp/data/test_sentiment'']"
  define A3 where "A3 = [a \<leftarrow> ancestors ''/tmp/data/vocab''. \<not> path_exists F2 a]"
  define F3 where "F3 = F2 @ A3 @ [''/tmp/data/vocab'']"
  define F6 where "F6 = F3 @ [''/tmp/data/train_sentiment/train.npz'',
      ''/tmp/data/test_sentiment/test.npz'', ''/tmp/data/vocab/vocab.npy'']"
  have anc: "set A1 \<subseteq> {''/tmp'', ''/tmp/data''}" "set A2 \<subseteq> {''/tmp'', ''/tmp/data''}"
    "set A3 \<subseteq> {''/tmp'', ''/tmp/data''}"
    by (auto simp: A1_def A2_def A3_def ancestors_train ancestors_test ancestors_vocab)
  have pr: "prefix ''/tmp/data/'' ''/tmp/data/train_sentiment''"
    "prefix ''/tmp/data/'' ''/tmp/data/test_sentiment''" "prefix ''/tmp/data/'' ''/tmp/data/vocab''"
    by simp_all
  note M1 = makedirs_None [OF m1]
  from M1 have f1: "files k1 = F1" and n1: "\<not> path_exists (files k) ''/tmp/data/train_sentiment''"
    by (simp_all add: F1_def A1_def)
  note M2 = makedirs_None [OF m2]
  from M2 f1 have f2: "files k2 = F2" and n2: "\<not> path_exists F1 ''/tmp/data/test_sentiment''"
    by (simp_all add: F2_def A2_def)
  note M3 = makedirs_None [OF m3]
  from M3 f2 have f3: "files k3 = F3" and n3: "\<not> path_exists F2 ''/tmp/data/vocab''"
    by (simp_all add: F3_def A3_def)
  from M1 M2 M3 have v3: "vars k3 = vars k"
    and t3: "trace k3 = trace k @
      [(Makedirs ''/tmp/data/train_sentiment'', Inr VNone),
       (Makedirs ''/tmp/data/test_sentiment'', Inr VNone),
       (Makedirs ''/tmp/data/vocab'', Inr VNone)]"
    by simp_all
  from savez_None [OF s1] v3 obtain td tl r1 where S1: "vars k V_train_data = Some td"
    "vars k V_train_labels = Some tl"
    "trace k4 = trace k3 @ [(Savez ''/tmp/data/train_sentiment/train.npz'' [(''data'', td), (''labels'', tl)], Inr r1)]"
    "vars k4 = vars k" "files k4 = files k3 @ [''/tmp/data/train_sentiment/train.npz'']"
    by (auto simp: with_ext_def suffix_def)
  from savez_None [OF s2] S1(4) obtain ted tel r2 where S2: "vars k V_test_data = Some ted"
    "vars k V_test_labels = Some tel"
    "trace k5 = trace k4 @ [(Savez ''/tmp/data/test_sentiment/test.npz'' [(''data'', ted), (''labels'', tel)], Inr r2)]"
    "vars k5 = vars k" "files k5 = files k4 @ [''/tmp/data/test_sentiment/test.npz'']"
    by (auto simp: with_ext_def suffix_def)
  from save_None [OF s3] S2(4) obtain vo r3 where S3: "vars k V_vocab = Some vo"
    "trace k6 = trace k5 @ [(Save ''/tmp/data/vocab/vocab.npy'' vo, Inr r3)]"
    "vars k6 = vars k" "files k6 = files k5 @ [''/tmp/data/vocab/vocab.npy'']"
    by (auto simp: with_ext_def suffix_def)
  have f6: "files k6 = F6" using S1(5) S2(5) S3(4) f3 by (simp add: F6_def)
  have L1: "filter (\<lambda>q. under ''/tmp/data/train_sentiment'' q \<and> q \<noteq> ''/tmp/data/train_sentiment'') F6
      = [''/tmp/data/train_sentiment/train.npz'']"
    unfolding F6_def F3_def F2_def F1_def filter_append filter_not_exists [OF n1]
      filter_parents [OF anc(1) pr(1)] filter_parents [OF anc(2) pr(1)] filter_parents [OF anc(3) pr(1)]
    by (simp add: under_def)
  have L2: "filter (\<lambda>q. under ''/tmp/data/test_sentiment'' q \<and> q \<noteq> ''/tmp/data/test_sentiment'') F6
      = [''/tmp/data/test_sentiment/test.npz'']"
    unfolding F6_def F3_def F2_def filter_append filter_not_exists [OF n2]
      filter_parents [OF anc(2) pr(2)] filter_parents [OF anc(3) pr(2)]
    by (simp add: under_def)
  have L3: "filter (\<lambda>q. under ''/tmp/data/vocab'' q \<and> q \<noteq> ''/tmp/data/vocab'') F6
      = [''/tmp/data/vocab/vocab.npy'']"
    unfolding F6_def F3_def filter_append filter_not_exists [OF n3]
      filter_parents [OF anc(3) pr(3)]
    by (simp add: under_def)
  from upload_None [OF u1] S3(3) f6 L1 obtain s a where U1: "vars k V_sagemaker_session = Some s"
    "trace k7 = trace k6 @ [(Upload_data s ''/tmp/data/train_sentiment'' ''notebook/chainer_sentiment/train''
            [''/tmp/data/train_sentiment/train.npz''], Inr a)]"
    "vars k7 = (vars k)(V_train_input \<mapsto> a)" "files k7 = F6"
    by auto
  from upload_None [OF u2] U1 L2 obtain b where U2:
    "trace k8 = trace k7 @ [(Upload_data s ''/tmp/data/test_sentiment'' ''notebook/chainer_sentiment/test''
            [''/tmp/data/test_sentiment/test.npz''], Inr b)]"
    "vars k8 = (vars k)(V_train_input \<mapsto> a, V_test_input \<mapsto> b)" "files k8 = F6"
    by auto
  from upload_None [OF u3] U1(1) U2 L3 obtain c where U3:
    "trace k9 = trace k8 @ [(Upload_data s ''/tmp/data/vocab'' ''notebook/chainer_sentiment/vocab''
            [''/tmp/data/vocab/vocab.npy''], Inr c)]"
    "vars k9 = (vars k)(V_train_input \<mapsto> a, V_test_input \<mapsto> b, V_vocab_input \<mapsto> c)"
    by auto
  have "trace k' = trace k @
        [(Makedirs ''/tmp/data/train_sentiment'', Inr VNone),
         (Makedirs ''/tmp/data/test_sentiment'', Inr VNone),
         (Makedirs ''/tmp/data/vocab'', Inr VNone),
         (Savez ''/tmp/data/train_sentiment/train.npz'' [(''data'', td), (''labels'', tl)], Inr r1),
         (Savez ''/tmp/data/test_sentiment/test.npz'' [(''data'', ted), (''labels'', tel)], Inr r2),
         (Save ''/tmp/data/vocab/vocab.npy'' vo, Inr r3),
         (Upload_data s ''/tmp/data/train_sentiment'' ''notebook/chainer_sentiment/train''
            [''/tmp/data/train_sentiment/train.npz''], Inr a),
         (Upload_data s ''/tmp/data/test_sentiment'' ''notebook/chainer_sentiment/test''
            [''/tmp/data/test_sentiment/test.npz''], Inr b),
         (Upload_data s ''/tmp/data/vocab'' ''notebook/chainer_sentiment/vocab''
            [''/tmp/data/vocab/vocab.npy''], Inr c)]"
    unfolding k9 U3(1) U2(1) U1(2) S3(2) S2(3) S1(3) t3 by simp
  with U1(1) S1(1,2) S2(1,2) S3(1) U3(2) k9 show ?thesis by blast
qed

text \<open>Cell 5 when it completes: the six values written and the three locations bound.\<close>

lemma cell5_success:
  assumes "cell5 w k = (None, k')"
  shows "\<exists>tr te vo s td tl ted tel r1 r2 r3 a b c.
      vars k V_train = Some tr \<and> vars k V_test = Some te \<and> vars k V_vocab = Some vo \<and>
      vars k V_sagemaker_session = Some s \<and>
      comprehension (\<lambda>element. py_index element 0) tr = Inr td \<and>
      comprehension (\<lambda>element. py_index element 1) tr = Inr tl \<and>
      comprehension (\<lambda>element. py_index element 0) te = Inr ted \<and>
      comprehension (\<lambda>element. py_index element 1) te = Inr tel \<and>
      trace k' = trace k @
        [(Makedirs ''/tmp/data/train_sentiment'', Inr VNone),
         (Makedirs ''/tmp/data/test_sentiment'', Inr VNone),
         (Makedirs ''/tmp/data/vocab'', Inr VNone),
         (Savez ''/tmp/data/train_sentiment/train.npz'' [(''data'', td), (''labels'', tl)], Inr r1),
         (Savez ''/tmp/data/test_sentiment/test.npz'' [(''data'', ted), (''labels'', tel)], Inr r2),
         (Save ''/tmp/data/vocab/vocab.npy'' vo, Inr r3),
         (Upload_data s ''/tmp/data/train_sentiment'' ''notebook/chainer_sentiment/train''
            [''/tmp/data/train_sentiment/train.npz''], Inr a),
         (Upload_data s ''/tmp/data/test_sentiment'' ''notebook/chainer_sentiment/test''
            [''/tmp/data/test_sentiment/test.npz''], Inr b),
         (Upload_data s ''/tmp/data/vocab'' ''notebook/chainer_sentiment/vocab''
            [''/tmp/data/vocab/vocab.npy''], Inr c),
         cleanup] \<and>
      vars k' V_train_input = Some a \<and> vars k' V_test_input = Some b \<and>
      vars k' V_vocab_input = Some c \<and> vars k' V_role = vars k V_role \<and>
      vars k' V_sagemaker_session = Some s"
  using assms
proof (cases rule: cell5_split)
  case (early e)
  then show ?thesis by simp
next
  case (entered k4 tr te a0 b0 c0 d0)
  from entered(1) obtain kb where kb: "cell5_try w k4 = (None, kb)"
    "k' = log (Rmtree ''/tmp/data'') (Inr VNone)
            (kb\<lparr>files := filter (\<lambda>q. \<not> under ''/tmp/data'' q) (files kb)\<rparr>)"
    by (rule cell5_finally)
  from cell5_try_success [OF kb(1)] obtain s td tl ted tel vo r1 r2 r3 a b c where T:
    "vars k4 V_sagemaker_session = Some s" "vars k4 V_train_data = Some td"
    "vars k4 V_train_labels = Some tl" "vars k4 V_test_data = Some ted"
    "vars k4 V_test_labels = Some tel" "vars k4 V_vocab = Some vo"
    "trace kb = trace k4 @
        [(Makedirs ''/tmp/data/train_sentiment'', Inr VNone),
         (Makedirs ''/tmp/data/test_sentiment'', Inr VNone),
         (Makedirs ''/tmp/data/vocab'', Inr VNone),
         (Savez ''/tmp/data/train_sentiment/train.npz'' [(''data'', td), (''labels'', tl)], Inr r1),
         (Savez ''/tmp/data/test_sentiment/test.npz'' [(''data'', ted), (''labels'', tel)], Inr r2),
         (Save ''/tmp/data/vocab/vocab.npy'' vo, Inr r3),
         (Upload_data s ''/tmp/data/train_sentiment'' ''notebook/chainer_sentiment/train''
            [''/tmp/data/train_sentiment/train.npz''], Inr a),
         (Upload_data s ''/tmp/data/test_sentiment'' ''notebook/chainer_sentiment/test''
            [''/tmp/data/test_sentiment/test.npz''], Inr b),
         (Upload_data s ''/tmp/data/vocab'' ''notebook/chainer_sentiment/vocab''
            [''/tmp/data/vocab/vocab.npy''], Inr c)]"
    "vars kb = (vars k4)(V_train_input \<mapsto> a, V_test_input \<mapsto> b, V_vocab_input \<mapsto> c)"
    by blast
  have fr: "vars k4 V_sagemaker_session = vars k V_sagemaker_session" "vars k4 V_vocab = vars k V_vocab"
    "vars k4 V_role = vars k V_role"
    by (simp_all add: entered(15))
  have eq: "td = a0" "tl = b0" "ted = c0" "tel = d0"
    using T(2-5) entered(11-14) by simp_all
  have v: "vars k' = vars kb" and t: "trace k' = trace kb @ [cleanup]"
    using kb(2) by (simp_all add: log_def cleanup_def)
  have "trace k' = trace k @
        [(Makedirs ''/tmp/data/train_sentiment'', Inr VNone),
         (Makedirs ''/tmp/data/test_sentiment'', Inr VNone),
         (Makedirs ''/tmp/data/vocab'', Inr VNone),
         (Savez ''/tmp/data/train_sentiment/train.npz'' [(''data'', td), (''labels'', tl)], Inr r1),
         (Savez ''/tmp/data/test_sentiment/test.npz'' [(''data'', ted), (''labels'', tel)], Inr r2),
         (Save ''/tmp/data/vocab/vocab.npy'' vo, Inr r3),
         (Upload_data s ''/tmp/data/train_sentiment'' ''notebook/chainer_sentiment/train''
            [''/tmp/data/train_sentiment/train.npz''], Inr a),
         (Upload_data s ''/tmp/data/test_sentiment'' ''notebook/chainer_sentiment/test''
            [''/tmp/data/test_sentiment/test.npz''], Inr b),
         (Upload_data s ''/tmp/data/vocab'' ''notebook/chainer_sentiment/vocab''
            [''/tmp/data/vocab/vocab.npy''], Inr c),
         cleanup]"
    unfolding t T(7) entered(3) by simp
  moreover have "vars k' V_train_input = Some a" "vars k' V_test_input = Some b"
    "vars k' V_vocab_input = Some c" "vars k' V_role = vars k V_role"
    "vars k' V_sagemaker_session = Some s"
    unfolding v T(8) using fr T(1) by simp_all
  moreover have "vars k V_vocab = Some vo" "vars k V_sagemaker_session = Some s"
    using fr T(1,6) by simp_all
  moreover note entered(5,6) entered(7-10) [folded eq]
  ultimately show ?thesis by blast
qed

text \<open>Cell 7 only displays the training script.\<close>

lemma cell7_run: "cell7 w k = (None, k\<lparr>trace := trace k @ [(Pygmentize ''src/sentiment_analysis.py'', Inr VNone)]\<rparr>)"
  by (simp add: cell7_def shell_def log_def)

text \<open>Every entry of a trace that follows a script is a call of the script or of a cleanup.\<close>

lemma follows_fns:
  assumes "follows C sc t r" and "e \<in> set t"
  shows "fn_of (fst e) \<in> set sc \<or> (\<exists>cl\<in>C. e \<in> set cl)"
proof (cases r)
  case None
  with assms(1) have "fns t = sc" by (simp add: follows_None)
  with assms(2) show ?thesis by (auto simp: fns_def)
next
  case (Some x)
  with assms(1) have "follows C sc t (Some x)" by simp
  then obtain main cl where m: "t = main @ cl" "prefix (fns main) sc" "cl = [] \<or> cl \<in> C"
    by (rule follows_SomeE)
  from m(2) have "set (fns main) \<subseteq> set sc" by (rule set_mono_prefix)
  with m(1,3) assms(2) show ?thesis by (auto simp: fns_def)
qed

lemma cell5_no_fit:
  assumes "cell5 w k = (r, k')" and "trace k' = trace k @ t"
  shows "(Fit est chans, a) \<notin> set t"
proof
  assume f: "(Fit est chans, a) \<in> set t"
  from emitsD [OF emits_cell5 assms(1)] assms(2) have
    "follows {[cleanup]}
       [MAKEDIRS, MAKEDIRS, MAKEDIRS, SAVEZ, SAVEZ, SAVE, UPLOAD_DATA, UPLOAD_DATA, UPLOAD_DATA, RMTREE] t r"
    by simp
  from follows_fns [OF this f] show False by (simp add: cleanup_def)
qed

text \<open>
  C6. Run cells 5, 7 and 9 from any kernel, in any world. If \<open>fit\<close> is called at all, then
  the calls of the three cells are exactly these, in this order: the three directories are made;
  \<open>np.savez\<close> writes \<open>train.npz\<close> with the arrays \<open>data\<close> and \<open>labels\<close>, the projections
  \<open>element[0]\<close> and \<open>element[1]\<close> of the training set; \<open>np.savez\<close> writes \<open>test.npz\<close> with the same
  two arrays of the test set; \<open>np.save\<close> writes \<open>vocab.npy\<close> with the vocabulary; no other file is
  written. Each of the three directories, holding its one file, is uploaded under the key prefix
  \<open>notebook/chainer_sentiment/train\<close>, \<open>.../test\<close> and \<open>.../vocab\<close>. After the cleanup and the
  display of the script, the estimator is built, and \<open>fit\<close> receives the three locations the
  uploads returned as the channels \<open>train\<close>, \<open>test\<close> and \<open>vocab\<close>, in this order.
\<close>

theorem artifacts_and_channels:
  assumes "block [cell5 w, cell7 w, cell9 w] k = (r, k')" and "trace k' = trace k @ t"
    and "(Fit est chans, f) \<in> set t"
  shows "\<exists>tr te vo s role td tl ted tel r1 r2 r3 a b c.
      vars k V_train = Some tr \<and> vars k V_test = Some te \<and> vars k V_vocab = Some vo \<and>
      comprehension (\<lambda>element. py_index element 0) tr = Inr td \<and>
      comprehension (\<lambda>element. py_index element 1) tr = Inr tl \<and>
      comprehension (\<lambda>element. py_index element 0) te = Inr ted \<and>
      comprehension (\<lambda>element. py_index element 1) te = Inr tel \<and>
      chans = [(''train'', a), (''test'', b), (''vocab'', c)] \<and>
      t = [(Makedirs ''/tmp/data/train_sentiment'', Inr VNone),
         (Makedirs ''/tmp/data/test_sentiment'', Inr VNone),
         (Makedirs ''/tmp/data/vocab'', Inr VNone),
         (Savez ''/tmp/data/train_sentiment/train.npz'' [(''data'', td), (''labels'', tl)], Inr r1),
         (Savez ''/tmp/data/test_sentiment/test.npz'' [(''data'', ted), (''labels'', tel)], Inr r2),
         (Save ''/tmp/data/vocab/vocab.npy'' vo, Inr r3),
         (Upload_data s ''/tmp/data/train_sentiment'' ''notebook/chainer_sentiment/train''
            [''/tmp/data/train_sentiment/train.npz''], Inr a),
         (Upload_data s ''/tmp/data/test_sentiment'' ''notebook/chainer_sentiment/test''
            [''/tmp/data/test_sentiment/test.npz''], Inr b),
         (Upload_data s ''/tmp/data/vocab'' ''notebook/chainer_sentiment/vocab''
            [''/tmp/data/vocab/vocab.npy''], Inr c),
         cleanup,
         (Pygmentize ''src/sentiment_analysis.py'', Inr VNone),
         (Chainer ''sentiment_analysis.py'' ''src'' role s, Inr est),
         (Fit est [(''train'', a), (''test'', b), (''vocab'', c)], f)]"
  using assms(1)
proof (cases rule: block_ConsE)
  case (stop e)
  from cell5_no_fit [OF stop(1) assms(2)] assms(3) show ?thesis by simp
next
  case (go k5)
  from cell5_success [OF go(1)] obtain tr te vo s td tl ted tel r1 r2 r3 a b c where 5:
    "vars k V_train = Some tr" "vars k V_test = Some te" "vars k V_vocab = Some vo"
    "vars k V_sagemaker_session = Some s"
    "comprehension (\<lambda>element. py_index element 0) tr = Inr td"
    "comprehension (\<lambda>element. py_index element 1) tr = Inr tl"
    "comprehension (\<lambda>element. py_index element 0) te = Inr ted"
    "comprehension (\<lambda>element. py_index element 1) te = Inr tel"
    "trace k5 = trace k @
        [(Makedirs ''/tmp/data/train_sentiment'', Inr VNone),
         (Makedirs ''/tmp/data/test_sentiment'', Inr VNone),
         (Makedirs ''/tmp/data/vocab'', Inr VNone),
         (Savez ''/tmp/data/train_sentiment/train.npz'' [(''data'', td), (''labels'', tl)], Inr r1),
         (Savez ''/tmp/data/test_sentiment/test.npz'' [(''data'', ted), (''labels'', tel)], Inr r2),
         (Save ''/tmp/data/vocab/vocab.npy'' vo, Inr r3),
         (Upload_data s ''/tmp/data/train_sentiment'' ''notebook/chainer_sentiment/train''
            [''/tmp/data/train_sentiment/train.npz''], Inr a),
         (Upload_data s ''/tmp/data/test_sentiment'' ''notebook/chainer_sentiment/test''
            [''/tmp/data/test_sentiment/test.npz''], Inr b),
         (Upload_data s ''/tmp/data/vocab'' ''notebook/chainer_sentiment/vocab''
            [''/tmp/data/vocab/vocab.npy''], Inr c),
         cleanup]"
    "vars k5 V_train_input = Some a" "vars k5 V_test_input = Some b"
    "vars k5 V_vocab_input = Some c" "vars k5 V_role = vars k V_role"
    "vars k5 V_sagemaker_session = Some s"
    by blast
  define k7 where "k7 = k5\<lparr>trace := trace k5 @ [(Pygmentize ''src/sentiment_analysis.py'', Inr VNone)]\<rparr>"
  from go(2) have 9: "cell9 w k7 = (r, k')"
    by (simp only: block_go [OF cell7_run] block_single k7_def)
  from emitsD [OF emits_cell9 [of "{}"] 9] obtain t9 where t9: "trace k' = trace k7 @ t9" by blast
  have t: "t = [(Makedirs ''/tmp/data/train_sentiment'', Inr VNone),
         (Makedirs ''/tmp/data/test_sentiment'', Inr VNone),
         (Makedirs ''/tmp/data/vocab'', Inr VNone),
         (Savez ''/tmp/data/train_sentiment/train.npz'' [(''data'', td), (''labels'', tl)], Inr r1),
         (Savez ''/tmp/data/test_sentiment/test.npz'' [(''data'', ted), (''labels'', tel)], Inr r2),
         (Save ''/tmp/data/vocab/vocab.npy'' vo, Inr r3),
         (Upload_data s ''/tmp/data/train_sentiment'' ''notebook/chainer_sentiment/train''
            [''/tmp/data/train_sentiment/train.npz''], Inr a),
         (Upload_data s ''/tmp/data/test_sentiment'' ''notebook/chainer_sentiment/test''
            [''/tmp/data/test_sentiment/test.npz''], Inr b),
         (Upload_data s ''/tmp/data/vocab'' ''notebook/chainer_sentiment/vocab''
            [''/tmp/data/vocab/vocab.npy''], Inr c),
         cleanup,
         (Pygmentize ''src/sentiment_analysis.py'', Inr VNone)] @ t9"
    using assms(2) t9 5(9) by (simp add: k7_def)
  with assms(3) have "(Fit est chans, f) \<in> set t9" by (auto simp: cleanup_def)
  from cell9_fit [OF 9 t9 this] obtain role s' x y z where F:
    "vars k7 V_sagemaker_session = Some s'" "vars k7 V_train_input = Some x"
    "vars k7 V_test_input = Some y" "vars k7 V_vocab_input = Some z"
    "t9 = [(Chainer ''sentiment_analysis.py'' ''src'' role s', Inr est),
           (Fit est [(''train'', x), (''test'', y), (''vocab'', z)], f)]"
    by blast
  have "s' = s" "x = a" "y = b" "z = c"
    using F(1-4) 5(10-14) by (simp_all add: k7_def)
  with F(5) t have t': "t = [(Makedirs ''/tmp/data/train_sentiment'', Inr VNone),
         (Makedirs ''/tmp/data/test_sentiment'', Inr VNone),
         (Makedirs ''/tmp/data/vocab'', Inr VNone),
         (Savez ''/tmp/data/train_sentiment/train.npz'' [(''data'', td), (''labels'', tl)], Inr r1),
         (Savez ''/tmp/data/test_sentiment/test.npz'' [(''data'', ted), (''labels'', tel)], Inr r2),
         (Save ''/tmp/data/vocab/vocab.npy'' vo, Inr r3),
         (Upload_data s ''/tmp/data/train_sentiment'' ''notebook/chainer_sentiment/train''
            [''/tmp/data/train_sentiment/train.npz''], Inr a),
         (Upload_data s ''/tmp/data/test_sentiment'' ''notebook/chainer_sentiment/test''
            [''/tmp/data/test_sentiment/test.npz''], Inr b),
         (Upload_data s ''/tmp/data/vocab'' ''notebook/chainer_sentiment/vocab''
            [''/tmp/data/vocab/vocab.npy''], Inr c),
         cleanup,
         (Pygmentize ''src/sentiment_analysis.py'', Inr VNone),
         (Chainer ''sentiment_analysis.py'' ''src'' role s, Inr est),
         (Fit est [(''train'', a), (''test'', b), (''vocab'', c)], f)]"
    by simp
  with assms(3) have "chans = [(''train'', a), (''test'', b), (''vocab'', c)]"
    by (auto simp: cleanup_def)
  with t' 5(1-3,5-8) show ?thesis by blast
qed

text \<open>Cells 5, 7 and 9 in the world \<open>happy\<close>, evaluated.\<close>

lemma cells_5_to_9_happy:
  assumes "block [cell5 happy, cell7 happy, cell9 happy] ready = (r, k')"
  shows "last (trace k') =
      (Fit (VObj ''estimator'')
         [(''train'', VStr ''s3://bucket/notebook/chainer_sentiment/train''),
          (''test'', VStr ''s3://bucket/notebook/chainer_sentiment/test''),
          (''vocab'', VStr ''s3://bucket/notebook/chainer_sentiment/vocab'')],
       Inr VNone) \<and> trace k' \<noteq> []"
  using assms by (clarsimp simp: cell_defs happy_def ready_def)

text \<open>C6 in the world \<open>happy\<close>, from the kernel \<open>ready\<close>.\<close>

theorem artifacts_and_channels_witness:
  "fns (trace (snd (block [cell5 happy, cell7 happy, cell9 happy] ready))) =
     [MAKEDIRS, MAKEDIRS, MAKEDIRS, SAVEZ, SAVEZ, SAVE, UPLOAD_DATA, UPLOAD_DATA, UPLOAD_DATA,
      RMTREE, PYGMENTIZE, CHAINER, FIT] \<and>
   map fst (take 3 (drop 3 (trace (snd (block [cell5 happy, cell7 happy, cell9 happy] ready))))) =
     [Savez ''/tmp/data/train_sentiment/train.npz''
        [(''data'', VList [VArr [4, 5], VArr [6]]), (''labels'', VList [VInt 1, VInt 0])],
      Savez ''/tmp/data/test_sentiment/test.npz''
        [(''data'', VList [VArr [5]]), (''labels'', VList [VInt 0])],
      Save ''/tmp/data/vocab/vocab.npy'' (VDict [(''good'', VInt 4), (''film'', VInt 5), (''bad'', VInt 6)])]"
proof -
  obtain r k' where run: "block [cell5 happy, cell7 happy, cell9 happy] ready = (r, k')"
    by (cases "block [cell5 happy, cell7 happy, cell9 happy] ready")
  note ev = cells_5_to_9_happy [OF run]
  have t: "trace k' = trace ready @ trace k'" by (simp add: ready_def)
  from ev have m: "(Fit (VObj ''estimator'')
         [(''train'', VStr ''s3://bucket/notebook/chainer_sentiment/train''),
          (''test'', VStr ''s3://bucket/notebook/chainer_sentiment/test''),
          (''vocab'', VStr ''s3://bucket/notebook/chainer_sentiment/vocab'')],
       Inr VNone) \<in> set (trace k')"
    by (metis last_in_set)
  have k': "snd (block [cell5 happy, cell7 happy, cell9 happy] ready) = k'"
    unfolding run by (rule snd_conv)
  from artifacts_and_channels [OF run t m] show ?thesis
    unfolding k'
    by (elim exE conjE)
       (auto simp add: fns_def cleanup_def ready_def comprehension_def seq_index_def)
qed

section \<open>The hosting contract\<close>




end
